theory Spec2Isabelle
  imports Complex_Main "HOL-Library.Word"
begin

section \<open>Cross-validation harness and gating distances of validate.cpp\<close>

text \<open>
  The development embeds \<^verbatim>\<open>src/openbr/plugins/validate.cpp\<close>: the class
  \<^verbatim>\<open>CrossValidateTransform\<close> (train, project, store, load) and the distances
  \<^verbatim>\<open>FilterDistance\<close> and \<^verbatim>\<open>MetadataDistance\<close>.

  Conventions. C++ \<^verbatim>\<open>int\<close> values that come from attributes are HOL integers. In train
  the increment \<^verbatim>\<open>partitions.last()+1\<close> is taken without overflow, which is undefined in
  C++; in \<^verbatim>\<open>MetadataDistance\<close> the conversions to \<^verbatim>\<open>int\<close> and the increment
  \<^verbatim>\<open>value++\<close> have the range of a 32-bit \<^verbatim>\<open>int\<close>. List positions and loop counters
  that never go negative are natural numbers. In train a failed Qt assertion, a fatal error
  and an access outside a list end the call with a value of the type \<open>error\<close>, which carries no
  ensemble; in project and in \<^verbatim>\<open>MetadataDistance\<close> what C++ does not define is \<open>None\<close>.
\<close>

subsection \<open>Records and typed attribute access\<close>

text \<open>The coordinates of a point are doubles, here real numbers: no infinity and no NaN.\<close>

type_synonym QPointF = "real \<times> real"

datatype QVariant = VString string | VInt int | VPoint QPointF

type_synonym File = "(string \<times> QVariant) list"

text \<open>A template is a file and its matrices; the matrices are opaque here.\<close>

record Template =
  "file" :: File
  mat :: "nat list"

datatype error = MissingKey string | IndexOutOfRange | EmptyList | DivideByZero

text \<open>
  Modelled from the spec: \<^verbatim>\<open>File::get<T>(key, defaultValue)\<close> is declared in
  a header of the repository that is not among the sources. Spec section 3 gives a
  record a mapping from string keys to values of type string, integer or 2D point, and
  section 6 the accessor \<^verbatim>\<open>get(Record, key, default)\<close> returning a typed value: the
  value stored under the key when it has the requested type, the default otherwise.
\<close>

definition get_int :: "File \<Rightarrow> string \<Rightarrow> int \<Rightarrow> int" where
  "get_int f key d = (case map_of f key of Some (VInt n) \<Rightarrow> n | _ \<Rightarrow> d)"

definition get_QString :: "File \<Rightarrow> string \<Rightarrow> string \<Rightarrow> string" where
  "get_QString f key d = (case map_of f key of Some (VString s) \<Rightarrow> s | _ \<Rightarrow> d)"

definition get_QPointF :: "File \<Rightarrow> string \<Rightarrow> QPointF \<Rightarrow> QPointF" where
  "get_QPointF f key d = (case map_of f key of Some (VPoint p) \<Rightarrow> p | _ \<Rightarrow> d)"

text \<open>
  Modelled from the spec: \<^verbatim>\<open>File::get<T>(key)\<close> without a default (line 54) is
  not among the sources either. Spec section 3 says that every record carries the
  identity attribute "Subject"; reading it from a record that has none is an error here.
\<close>

definition get_QString_required :: "File \<Rightarrow> string \<Rightarrow> error + string" where
  "get_QString_required f key =
     (case map_of f key of Some (VString s) \<Rightarrow> Inr s | _ \<Rightarrow> Inl (MissingKey key))"

text \<open>
  Modelled from the spec: \<^verbatim>\<open>TemplateList::find(key, value)\<close> is not among the
  sources. Spec section 6: \<^verbatim>\<open>find(Dataset, key, value)\<close> is the ordered sequence of
  matching positions.
\<close>

definition find_QString :: "Template list \<Rightarrow> string \<Rightarrow> string \<Rightarrow> nat list" where
  "find_QString data key v =
     filter (\<lambda>k. map_of (file (data ! k)) key = Some (VString v)) [0..<length data]"

definition files :: "Template list \<Rightarrow> File list" where
  "files data = map file data"

subsection \<open>The sentinel of the distances\<close>

text \<open>\<^verbatim>\<open>std::numeric_limits<float>::max()\<close>, the integer \<open>(2^24 - 1) * 2^104\<close>.\<close>

definition FLT_MAX :: real where
  "FLT_MAX = 340282346638528859811704183484516925440"

subsection \<open>FilterDistance\<close>

text \<open>
  \<^verbatim>\<open>Globals->filters\<close> is a hash from keys to string lists; it is a parameter, written
  as an association list whose first binding of a key is the one \<^verbatim>\<open>filters[key]\<close>
  reads.
\<close>

type_synonym Filters = "(string \<times> string list) list"

definition filters_at :: "Filters \<Rightarrow> string \<Rightarrow> string list" where
  "filters_at fs key = (case map_of fs key of Some vs \<Rightarrow> vs | None \<Rightarrow> [])"

text \<open>Lines 129 to 134: the scan of the allowed values, which stops at the first match.\<close>

primrec scan_values :: "string \<Rightarrow> string list \<Rightarrow> bool" where
  "scan_values metadata [] = False"
| "scan_values metadata (v # vs) = (if metadata = v then True else scan_values metadata vs)"

text \<open>Lines 124 to 137: the loop over the keys of the filter table.\<close>

fun FilterDistance_keys :: "Filters \<Rightarrow> string list \<Rightarrow> Template \<Rightarrow> real" where
  "FilterDistance_keys fs [] a = 0"
| "FilterDistance_keys fs (key # ks) a =
     (let metadata = get_QString (file a) key ''''
      in if filters_at fs key = [] then FilterDistance_keys fs ks a
         else if metadata = [] then - FLT_MAX
         else if \<not> scan_values metadata (filters_at fs key) then - FLT_MAX
         else FilterDistance_keys fs ks a)"

definition FilterDistance_compare :: "Filters \<Rightarrow> Template \<Rightarrow> Template \<Rightarrow> real" where
  "FilterDistance_compare fs a b = FilterDistance_keys fs (map fst fs) a"

subsection \<open>MetadataDistance\<close>

text \<open>
  \<^verbatim>\<open>QtUtils::toString(QPointF)\<close> and \<^verbatim>\<open>QtUtils::toPoint(QString, bool *ok)\<close> come
  from \<^verbatim>\<open>openbr/core/qtutils.h\<close>, which is not among the sources: they are
  parameters. \<open>toPoint\<close> is \<open>None\<close> when it clears \<^verbatim>\<open>ok\<close>.
\<close>

record QtUtils =
  toString :: "QPointF \<Rightarrow> string"
  toPoint :: "string \<Rightarrow> QPointF option"

text \<open>
  \<^verbatim>\<open>int\<close> has 32 bits. The conversion of a coordinate to \<^verbatim>\<open>int\<close> (lines 172, 173)
  drops the fraction; C++ defines it only when the result is a value of \<^verbatim>\<open>int\<close>, and
  \<open>None\<close> stands for the conversion that is not defined.
\<close>

definition INT_MAX :: int where
  "INT_MAX = 2147483647"

definition INT_MIN :: int where
  "INT_MIN = - 2147483648"

definition double_to_int :: "real \<Rightarrow> int option" where
  "double_to_int r =
     (let n = (if 0 \<le> r then \<lfloor>r\<rfloor> else \<lceil>r\<rceil>)
      in if INT_MIN \<le> n \<and> n \<le> INT_MAX then Some n else None)"

text \<open>\<^verbatim>\<open>QString::number(int)\<close>: the decimal numeral, with a minus sign below zero.\<close>

function digits :: "nat \<Rightarrow> string" where
  "digits n = (if n < 10 then [''0123456789'' ! n]
               else digits (n div 10) @ [''0123456789'' ! (n mod 10)])"
  by pat_completeness auto
termination
  by (relation "measure id") auto

declare digits.simps [simp del]

definition number :: "int \<Rightarrow> string" where
  "number n = (if n < 0 then CHR ''-'' # digits (nat (- n)) else digits (nat n))"

text \<open>
  Lines 175 to 181: the scan of the range, which stops at the first match. At the largest
  \<^verbatim>\<open>int\<close> the increment \<^verbatim>\<open>value++\<close> overflows, which C++ does not define: the scan
  has no result there, \<open>None\<close>. It gets there exactly when the upper bound is the largest
  \<^verbatim>\<open>int\<close> and nothing matched before.
\<close>

function range_loop :: "string \<Rightarrow> int \<Rightarrow> int \<Rightarrow> bool option" where
  "range_loop aValue val upperBound =
     (if val \<le> upperBound
      then (if aValue = number val then Some True
            else if val = INT_MAX then None
            else range_loop aValue (val + 1) upperBound)
      else Some False)"
  by pat_completeness auto
termination
  by (relation "measure (\<lambda>(a, v, u). nat (u + 1 - v))") auto

declare range_loop.simps [simp del]

text \<open>
  Lines 157 to 187: the loop over the configured keys. The result is \<open>None\<close> when a
  conversion or the scan of a range is not defined.
\<close>

fun MetadataDistance_compare ::
  "QtUtils \<Rightarrow> string list \<Rightarrow> Template \<Rightarrow> Template \<Rightarrow> real option" where
  "MetadataDistance_compare q [] a b = Some 0"
| "MetadataDistance_compare q (key # ks) a b =
     (let aValue = get_QString (file a) key '''';
          bValue0 = get_QString (file b) key '''';
          bValue = (if bValue0 = [] then toString q (get_QPointF (file b) key (0, 0))
                    else bValue0)
      in if aValue = [] \<or> bValue = [] then MetadataDistance_compare q ks a b
         else
           (case (case toPoint q bValue of
                    Some rng \<Rightarrow>
                      (case double_to_int (fst rng) of
                         None \<Rightarrow> None
                       | Some val \<Rightarrow>
                           (case double_to_int (snd rng) of
                              None \<Rightarrow> None
                            | Some upperBound \<Rightarrow> range_loop aValue val upperBound))
                  | None \<Rightarrow> Some (aValue = bValue)) of
              None \<Rightarrow> None
            | Some keep \<Rightarrow>
                if \<not> keep then Some (- FLT_MAX) else MetadataDistance_compare q ks a b))"

subsection \<open>CrossValidateTransform\<close>

text \<open>
  The trainable transform behind \<^verbatim>\<open>Transform*\<close> is the external model abstraction:
  its factory \<^verbatim>\<open>make\<close> (here \<open>make_model\<close>) and its virtual members are parameters. A model is a value
  of type \<open>'m\<close>; \<^verbatim>\<open>train\<close> and \<^verbatim>\<open>load\<close> return the changed model, \<^verbatim>\<open>store\<close>
  the bytes it appends to the stream and \<^verbatim>\<open>load\<close> also the rest of the stream.
\<close>

type_synonym QDataStream = "8 word list"

record 'm Transform =
  make_model :: "string \<Rightarrow> 'm"
  train_model :: "'m \<Rightarrow> Template list \<Rightarrow> 'm"
  project_model :: "'m \<Rightarrow> Template \<Rightarrow> Template"
  store_model :: "'m \<Rightarrow> QDataStream"
  load_model :: "'m \<Rightarrow> QDataStream \<Rightarrow> 'm \<times> QDataStream"

record 'm CrossValidateTransform =
  description :: string
  leaveOneOut :: bool
  transforms :: "'m list"

text \<open>Lines 29 to 34: the partition of every file and the number of partitions.\<close>

primrec assign :: "File list \<Rightarrow> int \<Rightarrow> int list \<Rightarrow> int \<times> int list" where
  "assign [] numPartitions partitions = (numPartitions, partitions)"
| "assign (f # fs) numPartitions partitions =
     (let partitions' = partitions @ [get_int f ''Partition'' 0]
      in assign fs (max numPartitions (last partitions' + 1)) partitions')"

text \<open>Lines 36, 37 and 83, 84: the ensemble grows until it has \<open>n\<close> models.\<close>

function grow :: "'m Transform \<Rightarrow> string \<Rightarrow> int \<Rightarrow> 'm list \<Rightarrow> 'm list" where
  "grow ops d n ts = (if int (length ts) < n then grow ops d n (ts @ [make_model ops d]) else ts)"
  by pat_completeness auto
termination
  by (relation "measure (\<lambda>(ops, d, n, ts). nat (n - int (length ts)))") auto

declare grow.simps [simp del]

text \<open>
  Lines 53 to 57: the body of the scan at position \<open>j\<close> for partition \<open>i\<close>. The index
  \<^verbatim>\<open>i%subjectIndices.size()\<close> divides by the size of the list, which must not be 0;
  \<^verbatim>\<open>partitionedData.at(j)\<close> and \<^verbatim>\<open>partitions[j]\<close> ask for a position of their list.
\<close>

definition exclude_step ::
  "bool \<Rightarrow> int list \<Rightarrow> Template list \<Rightarrow> nat \<Rightarrow> nat \<Rightarrow> nat list \<Rightarrow> error + nat list" where
  "exclude_step loo partitions partitionedData i j removed =
     (if loo then
        (if j < length partitionedData then
           (case get_QString_required (file (partitionedData ! j)) ''Subject'' of
              Inl e \<Rightarrow> Inl e
            | Inr subject \<Rightarrow>
                let subjectIndices = find_QString partitionedData ''Subject'' subject
                in if i > length subjectIndices
                   then (if length subjectIndices = 0 then Inl DivideByZero
                         else Inr (removed @ [subjectIndices ! (i mod length subjectIndices)]))
                   else Inr removed)
         else Inl IndexOutOfRange)
      else if j < length partitions then
        (if partitions ! j = int i then Inr (removed @ [j]) else Inr removed)
      else Inl IndexOutOfRange)"

text \<open>Line 48: \<open>j\<close> runs from the last position down to 0; the argument is \<open>j + 1\<close>.\<close>

fun exclude_scan ::
  "bool \<Rightarrow> int list \<Rightarrow> Template list \<Rightarrow> nat \<Rightarrow> nat \<Rightarrow> nat list \<Rightarrow> error + nat list" where
  "exclude_scan loo partitions partitionedData i 0 removed = Inr removed"
| "exclude_scan loo partitions partitionedData i (Suc j) removed =
     (case exclude_step loo partitions partitionedData i j removed of
        Inl e \<Rightarrow> Inl e
      | Inr removed' \<Rightarrow> exclude_scan loo partitions partitionedData i j removed')"

text \<open>
  Modelled from the spec: \<^verbatim>\<open>Common::Sort(vals, descending)\<close> comes from
  \<^verbatim>\<open>openbr/core/common.h\<close>, which is not among the sources. Line 59 reads the
  first component of each pair of its result as a position; spec section 4.3 says the
  excluded positions are removed sorted by position descending and deduplicated. The
  second component is the place of the value in \<open>vals\<close>, which train does not read.
\<close>

primrec dedup_first :: "(nat \<times> nat) list \<Rightarrow> (nat \<times> nat) list" where
  "dedup_first [] = []"
| "dedup_first (p # ps) =
     (if fst p \<in> fst ` set ps then dedup_first ps else p # dedup_first ps)"

definition Sort :: "nat list \<Rightarrow> bool \<Rightarrow> (nat \<times> nat) list" where
  "Sort vals descending =
     (let ascending = sort_key fst (dedup_first (zip vals [0..<length vals]))
      in if descending then rev ascending else ascending)"

text \<open>\<^verbatim>\<open>QList::removeAt(i)\<close> asks for a valid position: \<open>0 \<le> i < size()\<close>.\<close>

definition removeAt :: "'a list \<Rightarrow> nat \<Rightarrow> error + 'a list" where
  "removeAt xs i =
     (if i < length xs then Inr (take i xs @ drop (Suc i) xs) else Inl IndexOutOfRange)"

text \<open>Line 59: the removals, in the order of the sorted pairs.\<close>

fun remove_pairs :: "'a list \<Rightarrow> (nat \<times> nat) list \<Rightarrow> error + 'a list" where
  "remove_pairs xs [] = Inr xs"
| "remove_pairs xs (pair # pairs) =
     (case removeAt xs (fst pair) of
        Inl e \<Rightarrow> Inl e
      | Inr xs' \<Rightarrow> remove_pairs xs' pairs)"

text \<open>Lines 46 to 59: the working copy of partition \<open>i\<close>, after the removals.\<close>

definition partitioned ::
  "bool \<Rightarrow> int list \<Rightarrow> Template list \<Rightarrow> nat \<Rightarrow> error + Template list" where
  "partitioned loo partitions data i =
     (case exclude_scan loo partitions data i (length data) [] of
        Inl e \<Rightarrow> Inl e
      | Inr removed \<Rightarrow> remove_pairs data (Sort removed True))"

text \<open>
  Lines 45 to 64: one job per partition. Job \<open>i\<close> changes \<^verbatim>\<open>transforms[i]\<close> only, so
  the jobs run here one after the other, in the order in which they are submitted.
\<close>

fun train_jobs ::
  "'m Transform \<Rightarrow> bool \<Rightarrow> int list \<Rightarrow> Template list \<Rightarrow> nat list \<Rightarrow> 'm list \<Rightarrow>
   error + 'm list" where
  "train_jobs ops loo partitions data [] ts = Inr ts"
| "train_jobs ops loo partitions data (i # rest) ts =
     (case partitioned loo partitions data i of
        Inl e \<Rightarrow> Inl e
      | Inr partitionedData \<Rightarrow>
          if i < length ts
          then train_jobs ops loo partitions data rest
                 (ts[i := train_model ops (ts ! i) partitionedData])
          else Inl IndexOutOfRange)"

text \<open>Lines 27 to 65. \<^verbatim>\<open>QList::first()\<close> asserts that the list is not empty.\<close>

definition train ::
  "'m Transform \<Rightarrow> 'm CrossValidateTransform \<Rightarrow> Template list \<Rightarrow>
   error + 'm CrossValidateTransform" where
  "train ops self data =
     (let (numPartitions, partitions) = assign (files data) 0 [];
          ts = grow ops (description self) numPartitions (transforms self)
      in if numPartitions < 2 then
           (case ts of
              [] \<Rightarrow> Inl EmptyList
            | t # rest \<Rightarrow> Inr (self\<lparr>transforms := train_model ops t data # rest\<rparr>))
         else
           (case train_jobs ops (leaveOneOut self) partitions data [0..<nat numPartitions] ts of
              Inl e \<Rightarrow> Inl e
            | Inr ts' \<Rightarrow> Inr (self\<lparr>transforms := ts'\<rparr>)))"

text \<open>
  Lines 67 to 70. Line 69 indexes the list with the partition of the record and no test:
  outside the list \<^verbatim>\<open>QList::operator[]\<close> is a failed assertion that ends the process in a
  debug build of Qt, and an access that C++ does not define otherwise. \<open>None\<close> stands for
  that: the call has no result and leaves no object. The member is \<^verbatim>\<open>const\<close>: a call that
  returns leaves the object it was called on, returned here beside the projected template.
\<close>

definition project ::
  "'m Transform \<Rightarrow> 'm CrossValidateTransform \<Rightarrow> Template \<Rightarrow>
   (Template \<times> 'm CrossValidateTransform) option" where
  "project ops self src =
     (let p = get_int (file src) ''Partition'' 0
      in if 0 \<le> p \<and> p < int (length (transforms self))
         then Some (project_model ops (transforms self ! nat p) src, self)
         else None)"

text \<open>
  \<^verbatim>\<open>QDataStream\<close> writes an \<^verbatim>\<open>int\<close> as four bytes, the most significant first, and
  reads it back as a two's complement number. A read past the end of the stream gives 0
  and leaves the stream at its end.
\<close>

definition put_int32 :: "int \<Rightarrow> QDataStream" where
  "put_int32 n =
     (let w = (word_of_int n :: 32 word)
      in [ucast (drop_bit 24 w), ucast (drop_bit 16 w), ucast (drop_bit 8 w), ucast w])"

definition get_int32 :: "QDataStream \<Rightarrow> int \<times> QDataStream" where
  "get_int32 stream =
     (case stream of
        a # b # c # d # rest \<Rightarrow>
          (sint (word_of_nat (((unat a * 256 + unat b) * 256 + unat c) * 256 + unat d)
                 :: 32 word), rest)
      | _ \<Rightarrow> (0, []))"

text \<open>Lines 72 to 77.\<close>

primrec store_each :: "'m Transform \<Rightarrow> 'm list \<Rightarrow> QDataStream \<Rightarrow> QDataStream" where
  "store_each ops [] stream = stream"
| "store_each ops (t # ts) stream = store_each ops ts (stream @ store_model ops t)"

definition store :: "'m Transform \<Rightarrow> 'm CrossValidateTransform \<Rightarrow> QDataStream \<Rightarrow> QDataStream" where
  "store ops self stream =
     store_each ops (transforms self) (stream @ put_int32 (int (length (transforms self))))"

text \<open>Lines 79 to 87.\<close>

primrec load_each :: "'m Transform \<Rightarrow> 'm list \<Rightarrow> QDataStream \<Rightarrow> 'm list \<times> QDataStream" where
  "load_each ops [] stream = ([], stream)"
| "load_each ops (t # ts) stream =
     (let (t', stream') = load_model ops t stream;
          (ts', stream'') = load_each ops ts stream'
      in (t' # ts', stream''))"

definition load ::
  "'m Transform \<Rightarrow> 'm CrossValidateTransform \<Rightarrow> QDataStream \<Rightarrow>
   'm CrossValidateTransform \<times> QDataStream" where
  "load ops self stream =
     (let (numTransforms, stream') = get_int32 stream;
          ts = grow ops (description self) numTransforms (transforms self);
          (ts', stream'') = load_each ops ts stream'
      in (self\<lparr>transforms := ts'\<rparr>, stream''))"

section \<open>The properties, in the words of the specification\<close>

text \<open>
  The allowlist gate rejects on a key when the key has a non-empty set of allowed values
  and the value of the first record is empty or not in the set.
\<close>

definition rejects :: "Filters \<Rightarrow> Template \<Rightarrow> string \<Rightarrow> bool" where
  "rejects fs a key \<longleftrightarrow>
     filters_at fs key \<noteq> [] \<and>
     (get_QString (file a) key '''' = [] \<or>
      get_QString (file a) key '''' \<notin> set (filters_at fs key))"

text \<open>
  The metadata gate. The value of the query record under a key is its string, or, when that
  is empty, the string of its point under the key. A key matches when either value is empty,
  or the query value parses as a point and the value of the first record is the numeral of
  an integer between the coordinates of the point converted to \<^verbatim>\<open>int\<close>, or the query
  value does not parse and the two strings are equal. The conversions and the scan of a key
  are defined when either value is empty, or the query value does not parse, or the
  coordinates convert to \<^verbatim>\<open>int\<close> and the upper one is below the largest \<^verbatim>\<open>int\<close>.
\<close>

definition query_value :: "QtUtils \<Rightarrow> Template \<Rightarrow> string \<Rightarrow> string" where
  "query_value q b key =
     (if get_QString (file b) key '''' = []
      then toString q (get_QPointF (file b) key (0, 0))
      else get_QString (file b) key '''')"

definition key_matches :: "QtUtils \<Rightarrow> Template \<Rightarrow> Template \<Rightarrow> string \<Rightarrow> bool" where
  "key_matches q a b key \<longleftrightarrow>
     get_QString (file a) key '''' = [] \<or> query_value q b key = [] \<or>
     (case toPoint q (query_value q b key) of
        Some (x, y) \<Rightarrow>
          (case (double_to_int x, double_to_int y) of
             (Some lo, Some hi) \<Rightarrow>
               \<exists>v. lo \<le> v \<and> v \<le> hi \<and> get_QString (file a) key '''' = number v
           | _ \<Rightarrow> False)
      | None \<Rightarrow> get_QString (file a) key '''' = query_value q b key)"

definition key_defined :: "QtUtils \<Rightarrow> Template \<Rightarrow> Template \<Rightarrow> string \<Rightarrow> bool" where
  "key_defined q a b key \<longleftrightarrow>
     get_QString (file a) key '''' = [] \<or> query_value q b key = [] \<or>
     (case toPoint q (query_value q b key) of
        Some (x, y) \<Rightarrow>
          (case (double_to_int x, double_to_int y) of
             (Some lo, Some hi) \<Rightarrow> hi < INT_MAX
           | _ \<Rightarrow> False)
      | None \<Rightarrow> True)"

text \<open>
  The same gate as the claim words it: the range is the inclusive range between the
  coordinates of the point themselves.
\<close>

definition key_matches_as_claimed ::
  "QtUtils \<Rightarrow> Template \<Rightarrow> Template \<Rightarrow> string \<Rightarrow> bool" where
  "key_matches_as_claimed q a b key \<longleftrightarrow>
     get_QString (file a) key '''' = [] \<or> query_value q b key = [] \<or>
     (case toPoint q (query_value q b key) of
        Some (x, y) \<Rightarrow>
          \<exists>v. x \<le> real_of_int v \<and> real_of_int v \<le> y \<and>
              get_QString (file a) key '''' = number v
      | None \<Rightarrow> get_QString (file a) key '''' = query_value q b key)"

text \<open>The partition attribute of a record, 0 when it has none, and the number of partitions
  that train computes at lines 29 to 34.\<close>

definition partition_of :: "Template \<Rightarrow> int" where
  "partition_of t = get_int (file t) ''Partition'' 0"

definition numPartitions :: "Template list \<Rightarrow> int" where
  "numPartitions data = fst (assign (files data) 0 [])"

text \<open>
  Leave-one-out. The subject of a record; the ordered positions of the records that share the
  subject of the record at position \<open>j\<close>; and the rule of spec section 4.2 at position \<open>j\<close>
  for partition \<open>i\<close>: when \<open>i\<close> is strictly greater than the number \<open>|S|\<close> of those positions,
  position \<open>S[i mod |S|]\<close> is excluded, and nothing otherwise.
\<close>

definition Subject :: "Template \<Rightarrow> error + string" where
  "Subject t = get_QString_required (file t) ''Subject''"

definition subject_positions :: "Template list \<Rightarrow> nat \<Rightarrow> nat list" where
  "subject_positions data j =
     filter (\<lambda>k. Subject (data ! k) = Subject (data ! j)) [0..<length data]"

definition loo_excluded :: "Template list \<Rightarrow> nat \<Rightarrow> nat \<Rightarrow> nat list" where
  "loo_excluded data i j =
     (let S = subject_positions data j
      in if i > length S then [S ! (i mod length S)] else [])"

text \<open>
  The contract of the external model for persistence: a model that loads the bytes another
  model stored consumes exactly those bytes and projects as the model that stored them.
\<close>

definition model_roundtrip :: "'m Transform \<Rightarrow> bool" where
  "model_roundtrip ops \<longleftrightarrow>
     (\<forall>m m0 rest.
        snd (load_model ops m0 (store_model ops m @ rest)) = rest \<and>
        project_model ops (fst (load_model ops m0 (store_model ops m @ rest)))
          = project_model ops m)"

section \<open>Example inputs\<close>

definition gender_filter :: Filters where
  "gender_filter = [(''Gender'', [''M''])]"

definition with_gender :: "string \<Rightarrow> Template" where
  "with_gender g = \<lparr>file = [(''Gender'', VString g)], mat = []\<rparr>"

definition no_metadata :: Template where
  "no_metadata = \<lparr>file = [], mat = []\<rparr>"

text \<open>
  A table for the two conversions of \<^verbatim>\<open>QtUtils\<close>, on the points of the examples: the points
  (20,40), (41,50), (20.9,40.9) and (18,2147483647).
\<close>

definition example_utils :: QtUtils where
  "example_utils =
     \<lparr>toString = (\<lambda>p. if p = (20, 40) then ''(20,40)''
                      else if p = (41, 50) then ''(41,50)''
                      else if p = (209 / 10, 409 / 10) then ''(20.9,40.9)''
                      else if p = (18, 2147483647) then ''(18,2147483647)''
                      else ''(0,0)''),
      toPoint = (\<lambda>s. if s = ''(20,40)'' then Some (20, 40)
                     else if s = ''(41,50)'' then Some (41, 50)
                     else if s = ''(20.9,40.9)'' then Some (209 / 10, 409 / 10)
                     else if s = ''(18,2147483647)'' then Some (18, 2147483647)
                     else if s = ''(0,0)'' then Some (0, 0)
                     else None)\<rparr>"

definition with_age :: "QVariant \<Rightarrow> Template" where
  "with_age v = \<lparr>file = [(''Age'', v)], mat = []\<rparr>"

definition example_ops :: "8 word Transform" where
  "example_ops =
     \<lparr>make_model = (\<lambda>d. 0),
      train_model = (\<lambda>m data. of_nat (length data)),
      project_model = (\<lambda>m t. t\<lparr>mat := [unat m]\<rparr>),
      store_model = (\<lambda>m. [m]),
      load_model = (\<lambda>m stream. case stream of [] \<Rightarrow> (m, []) | b # rest \<Rightarrow> (b, rest))\<rparr>"

definition in_partition :: "int \<Rightarrow> Template" where
  "in_partition p = \<lparr>file = [(''Partition'', VInt p)], mat = []\<rparr>"

definition two_models :: "8 word CrossValidateTransform" where
  "two_models = \<lparr>description = ''Identity'', leaveOneOut = False, transforms = [3, 7]\<rparr>"

definition one_model :: "8 word CrossValidateTransform" where
  "one_model = \<lparr>description = ''Identity'', leaveOneOut = False, transforms = [5]\<rparr>"

definition three_models :: "8 word CrossValidateTransform" where
  "three_models = \<lparr>description = ''Identity'', leaveOneOut = False, transforms = [1, 2, 3]\<rparr>"

definition untrained :: "bool \<Rightarrow> 8 word CrossValidateTransform" where
  "untrained loo = \<lparr>description = ''Identity'', leaveOneOut = loo, transforms = []\<rparr>"

definition subject_in :: "string \<Rightarrow> int \<Rightarrow> Template" where
  "subject_in s p = \<lparr>file = [(''Subject'', VString s), (''Partition'', VInt p)], mat = []\<rparr>"

definition three_records :: "Template list" where
  "three_records = [subject_in ''A'' 0, subject_in ''A'' 1, subject_in ''B'' 3]"

definition four_records :: "Template list" where
  "four_records = [in_partition 0, in_partition 1, in_partition 2, in_partition 1]"

definition two_of_one_subject :: "Template list" where
  "two_of_one_subject = [subject_in ''A'' 0, subject_in ''A'' 2]"

section \<open>FilterDistance: the allowlist gate\<close>

lemma FLT_MAX_pos: "0 < FLT_MAX"
  by (simp add: FLT_MAX_def)

lemma scan_values_iff: "scan_values metadata vs \<longleftrightarrow> metadata \<in> set vs"
  by (induction vs) auto

lemma FilterDistance_keys_eq:
  "FilterDistance_keys fs ks a = (if \<exists>key \<in> set ks. rejects fs a key then - FLT_MAX else 0)"
  by (induction ks) (auto simp: Let_def scan_values_iff rejects_def)

text \<open>
  The keys of a hash come in no particular order; the result does not depend on it.
\<close>

lemma FilterDistance_keys_order:
  "set ks = set ks' \<Longrightarrow> FilterDistance_keys fs ks a = FilterDistance_keys fs ks' a"
  by (simp add: FilterDistance_keys_eq)

text \<open>
  C7. The allowlist comparator returns the negative sentinel exactly when some key of the
  filter table with a non-empty list of allowed values has the first record's value empty
  or outside the list; in every other case it returns 0. Keys with an empty list never
  reject.
\<close>

theorem FilterDistance_compare_allowlist:
  "(FilterDistance_compare fs a b = - FLT_MAX \<longleftrightarrow>
      (\<exists>key \<in> set (map fst fs). rejects fs a key)) \<and>
   (FilterDistance_compare fs a b \<noteq> - FLT_MAX \<longrightarrow> FilterDistance_compare fs a b = 0) \<and>
   - FLT_MAX < 0"
  using FLT_MAX_pos by (simp add: FilterDistance_compare_def FilterDistance_keys_eq)

text \<open>
  With the filter Gender: M, a record with Gender F and a record with no Gender are
  rejected, a record with Gender M is accepted, and an empty list of values accepts.
\<close>

theorem FilterDistance_compare_allowlist_witness:
  "FilterDistance_compare gender_filter (with_gender ''F'') no_metadata = - FLT_MAX \<and>
   FilterDistance_compare gender_filter no_metadata no_metadata = - FLT_MAX \<and>
   FilterDistance_compare gender_filter (with_gender ''M'') no_metadata = 0 \<and>
   FilterDistance_compare [(''Gender'', [])] (with_gender ''F'') no_metadata = 0"
proof -
  have f: "rejects gender_filter (with_gender ''F'') ''Gender''"
    by (simp add: rejects_def gender_filter_def with_gender_def filters_at_def get_QString_def)
  have n: "rejects gender_filter no_metadata ''Gender''"
    by (simp add: rejects_def gender_filter_def no_metadata_def filters_at_def get_QString_def)
  have m: "\<not> rejects gender_filter (with_gender ''M'') ''Gender''"
    by (simp add: rejects_def gender_filter_def with_gender_def filters_at_def get_QString_def)
  have e: "\<not> rejects [(''Gender'', [])] (with_gender ''F'') ''Gender''"
    by (simp add: rejects_def filters_at_def)
  have k: "map fst gender_filter = [''Gender'']"
    by (simp add: gender_filter_def)
  have "\<exists>key \<in> set (map fst gender_filter). rejects gender_filter (with_gender ''F'') key"
    using f k by simp
  then have 1: "FilterDistance_compare gender_filter (with_gender ''F'') no_metadata = - FLT_MAX"
    using FilterDistance_compare_allowlist [of gender_filter "with_gender ''F''" no_metadata]
    by metis
  have "\<exists>key \<in> set (map fst gender_filter). rejects gender_filter no_metadata key"
    using n k by simp
  then have 2: "FilterDistance_compare gender_filter no_metadata no_metadata = - FLT_MAX"
    using FilterDistance_compare_allowlist [of gender_filter no_metadata no_metadata]
    by metis
  have "\<not> (\<exists>key \<in> set (map fst gender_filter). rejects gender_filter (with_gender ''M'') key)"
    using m k by simp
  then have 3: "FilterDistance_compare gender_filter (with_gender ''M'') no_metadata = 0"
    using FilterDistance_compare_allowlist [of gender_filter "with_gender ''M''" no_metadata]
    by metis
  have "\<not> (\<exists>key \<in> set (map fst [(''Gender'', [])]).
            rejects [(''Gender'', [])] (with_gender ''F'') key)"
    using e by simp
  then have 4: "FilterDistance_compare [(''Gender'', [])] (with_gender ''F'') no_metadata = 0"
    using FilterDistance_compare_allowlist [of "[(''Gender'', [])]" "with_gender ''F''" no_metadata]
    by metis
  from 1 2 3 4 show ?thesis by (intro conjI)
qed

text \<open>
  C10. The result of the allowlist comparator does not depend on its second argument, and
  two first arguments with the same attributes get the same result: the result is a function
  of the first record's attributes and of the filter table.
\<close>

theorem FilterDistance_compare_first_only:
  "FilterDistance_compare fs a b = FilterDistance_compare fs a b' \<and>
   (file a = file a' \<longrightarrow> FilterDistance_compare fs a b = FilterDistance_compare fs a' b')"
  by (simp add: FilterDistance_compare_def FilterDistance_keys_eq rejects_def)

theorem FilterDistance_compare_first_only_witness:
  "FilterDistance_compare gender_filter (with_gender ''F'') no_metadata
   = FilterDistance_compare gender_filter (with_gender ''F'') (with_gender ''M'') \<and>
   FilterDistance_compare gender_filter (with_gender ''F'') no_metadata
   = FilterDistance_compare gender_filter ((with_gender ''F'')\<lparr>mat := [1]\<rparr>) (with_gender ''M'')"
proof -
  have "file (with_gender ''F'') = file ((with_gender ''F'')\<lparr>mat := [1]\<rparr>)"
    by simp
  then show ?thesis
    using FilterDistance_compare_first_only [of gender_filter "with_gender ''F''" no_metadata
      "with_gender ''M''" "(with_gender ''F'')\<lparr>mat := [1]\<rparr>"]
    by metis
qed

section \<open>MetadataDistance: the metadata gate\<close>

lemma range_loop_eq:
  assumes "val \<le> INT_MAX"
  shows "range_loop aValue val upperBound =
           (if \<exists>v. val \<le> v \<and> v \<le> upperBound \<and> v \<le> INT_MAX \<and> aValue = number v
            then Some True
            else if INT_MAX \<le> upperBound then None else Some False)"
  using assms
proof (induction aValue val upperBound rule: range_loop.induct)
  case (1 aValue val upperBound)
  show ?case
  proof (cases "val \<le> upperBound")
    case False
    then have "\<not> (\<exists>v. val \<le> v \<and> v \<le> upperBound \<and> v \<le> INT_MAX \<and> aValue = number v)"
      by auto
    moreover have "\<not> INT_MAX \<le> upperBound"
      using False "1.prems" by simp
    ultimately show ?thesis
      using False by (subst range_loop.simps) simp
  next
    case le: True
    show ?thesis
    proof (cases "aValue = number val")
      case True
      then have "\<exists>v. val \<le> v \<and> v \<le> upperBound \<and> v \<le> INT_MAX \<and> aValue = number v"
        using le "1.prems" by blast
      then show ?thesis
        using le True by (subst range_loop.simps) simp
    next
      case ne: False
      show ?thesis
      proof (cases "val = INT_MAX")
        case True
        have "\<not> (\<exists>v. val \<le> v \<and> v \<le> upperBound \<and> v \<le> INT_MAX \<and> aValue = number v)"
        proof
          assume "\<exists>v. val \<le> v \<and> v \<le> upperBound \<and> v \<le> INT_MAX \<and> aValue = number v"
          then obtain v where "val \<le> v" "v \<le> INT_MAX" "aValue = number v" by blast
          with True have "v = val" by simp
          with \<open>aValue = number v\<close> ne show False by simp
        qed
        moreover have "INT_MAX \<le> upperBound"
          using le True by simp
        ultimately show ?thesis
          using le ne True by (subst range_loop.simps) simp
      next
        case False
        then have next_le: "val + 1 \<le> INT_MAX"
          using "1.prems" by simp
        have "(\<exists>v. val \<le> v \<and> v \<le> upperBound \<and> v \<le> INT_MAX \<and> aValue = number v) \<longleftrightarrow>
              (\<exists>v. val + 1 \<le> v \<and> v \<le> upperBound \<and> v \<le> INT_MAX \<and> aValue = number v)"
        proof
          assume "\<exists>v. val \<le> v \<and> v \<le> upperBound \<and> v \<le> INT_MAX \<and> aValue = number v"
          then obtain v where v: "val \<le> v" "v \<le> upperBound" "v \<le> INT_MAX" "aValue = number v"
            by blast
          with ne have "v \<noteq> val" by auto
          with v have "val + 1 \<le> v" by simp
          with v show "\<exists>v. val + 1 \<le> v \<and> v \<le> upperBound \<and> v \<le> INT_MAX \<and> aValue = number v"
            by blast
        next
          assume "\<exists>v. val + 1 \<le> v \<and> v \<le> upperBound \<and> v \<le> INT_MAX \<and> aValue = number v"
          then obtain v where "val + 1 \<le> v" "v \<le> upperBound" "v \<le> INT_MAX" "aValue = number v"
            by blast
          then have "val \<le> v \<and> v \<le> upperBound \<and> v \<le> INT_MAX \<and> aValue = number v"
            by simp
          then show "\<exists>v. val \<le> v \<and> v \<le> upperBound \<and> v \<le> INT_MAX \<and> aValue = number v"
            by blast
        qed
        moreover have "range_loop aValue val upperBound = range_loop aValue (val + 1) upperBound"
          using le ne False by (subst range_loop.simps) simp
        ultimately show ?thesis
          using "1.IH" [OF le ne False next_le] by simp
      qed
    qed
  qed
qed

lemma double_to_int_range:
  "double_to_int r = Some n \<Longrightarrow> INT_MIN \<le> n \<and> n \<le> INT_MAX"
  by (auto simp: double_to_int_def Let_def split: if_splits)

lemma range_loop_below_INT_MAX:
  assumes "lo \<le> INT_MAX" "hi < INT_MAX"
  shows "range_loop aValue lo hi = Some (\<exists>v. lo \<le> v \<and> v \<le> hi \<and> aValue = number v)"
proof -
  have "(\<exists>v. lo \<le> v \<and> v \<le> hi \<and> v \<le> INT_MAX \<and> aValue = number v) \<longleftrightarrow>
        (\<exists>v. lo \<le> v \<and> v \<le> hi \<and> aValue = number v)"
    using assms(2) by auto
  then show ?thesis
    using assms by (simp add: range_loop_eq)
qed

lemma MetadataDistance_compare_step:
  assumes "key_defined q a b key"
  shows "MetadataDistance_compare q (key # ks) a b =
           (if key_matches q a b key then MetadataDistance_compare q ks a b
            else Some (- FLT_MAX))"
proof (cases "get_QString (file a) key '''' = [] \<or> query_value q b key = []")
  case True
  then show ?thesis
    by (auto simp: Let_def key_matches_def query_value_def)
next
  case nonempty: False
  show ?thesis
  proof (cases "toPoint q (query_value q b key)")
    case None
    with nonempty show ?thesis
      by (auto simp: Let_def key_matches_def query_value_def)
  next
    case (Some rng)
    obtain x y where rng: "rng = (x, y)" by (cases rng)
    from assms nonempty Some rng obtain lo hi
      where lo: "double_to_int x = Some lo" and hi: "double_to_int y = Some hi"
        and below: "hi < INT_MAX"
      by (auto simp: key_defined_def split: option.splits)
    have "lo \<le> INT_MAX" using double_to_int_range [OF lo] by simp
    then have scan: "range_loop (get_QString (file a) key '''') lo hi =
        Some (\<exists>v. lo \<le> v \<and> v \<le> hi \<and> get_QString (file a) key '''' = number v)"
      using below by (rule range_loop_below_INT_MAX)
    have m: "key_matches q a b key \<longleftrightarrow>
        (\<exists>v. lo \<le> v \<and> v \<le> hi \<and> get_QString (file a) key '''' = number v)"
      using nonempty by (simp add: key_matches_def Some rng lo hi)
    have p: "toPoint q (if get_QString (file b) key '''' = []
                       then toString q (get_QPointF (file b) key (0, 0))
                       else get_QString (file b) key '''') = Some (x, y)"
      using Some rng by (simp add: query_value_def)
    show ?thesis
      using nonempty unfolding m
      by (auto simp: Let_def p lo hi scan query_value_def)
  qed
qed

lemma MetadataDistance_compare_eq:
  assumes "\<forall>key \<in> set ks. key_defined q a b key"
  shows "MetadataDistance_compare q ks a b =
           Some (if \<forall>key \<in> set ks. key_matches q a b key then 0 else - FLT_MAX)"
  using assms
proof (induction ks)
  case Nil
  show ?case by simp
next
  case (Cons key ks)
  then have "MetadataDistance_compare q ks a b =
           Some (if \<forall>key \<in> set ks. key_matches q a b key then 0 else - FLT_MAX)"
    by simp
  moreover have "key_defined q a b key"
    using Cons.prems by simp
  ultimately show ?case
    by (simp add: MetadataDistance_compare_step del: MetadataDistance_compare.simps)
qed

text \<open>
  C8, amended. For every pair of records and every list of configured keys on which the
  conversions and the scans are defined, the metadata comparator returns the negative
  sentinel exactly when some key does not match, and 0 otherwise. A key whose value is empty
  on either side (for the query record, after the fallback to the string of its point)
  matches; when the query value parses as a point, the key matches exactly when the value of
  the first record is the numeral of an integer of the inclusive range between the
  coordinates converted to \<^verbatim>\<open>int\<close>, the fractions dropped; otherwise it matches exactly when
  the two strings are equal.
\<close>

theorem MetadataDistance_compare_gate:
  assumes "\<forall>key \<in> set ks. key_defined q a b key"
  shows "(MetadataDistance_compare q ks a b = Some (- FLT_MAX) \<longleftrightarrow>
            (\<exists>key \<in> set ks. \<not> key_matches q a b key)) \<and>
         (MetadataDistance_compare q ks a b \<noteq> Some (- FLT_MAX) \<longrightarrow>
            MetadataDistance_compare q ks a b = Some 0)"
  using FLT_MAX_pos by (simp add: MetadataDistance_compare_eq [OF assms])

lemma example_query_values:
  "query_value example_utils (with_age (VPoint (20, 40))) ''Age'' = ''(20,40)''"
  "query_value example_utils (with_age (VPoint (41, 50))) ''Age'' = ''(41,50)''"
  "query_value example_utils (with_age (VPoint (209 / 10, 409 / 10))) ''Age'' = ''(20.9,40.9)''"
  "query_value example_utils (with_age (VPoint (18, 2147483647))) ''Age'' = ''(18,2147483647)''"
  "query_value example_utils (with_age (VString ''30'')) ''Age'' = ''30''"
  by (simp_all add: query_value_def with_age_def get_QString_def get_QPointF_def
      example_utils_def)

lemma example_points:
  "toPoint example_utils ''(20,40)'' = Some (20, 40)"
  "toPoint example_utils ''(41,50)'' = Some (41, 50)"
  "toPoint example_utils ''(20.9,40.9)'' = Some (209 / 10, 409 / 10)"
  "toPoint example_utils ''(18,2147483647)'' = Some (18, 2147483647)"
  "toPoint example_utils ''30'' = None"
  by (simp_all add: example_utils_def)

lemma example_conversions:
  "double_to_int 20 = Some 20" "double_to_int 40 = Some 40"
  "double_to_int 41 = Some 41" "double_to_int 50 = Some 50"
  "double_to_int (209 / 10) = Some 20" "double_to_int (409 / 10) = Some 40"
  "double_to_int 18 = Some 18" "double_to_int 2147483647 = Some INT_MAX"
  by (simp_all add: double_to_int_def INT_MIN_def INT_MAX_def)

lemma example_values:
  "get_QString (file (with_age (VString s))) ''Age'' '''' = s"
  "get_QString (file no_metadata) ''Age'' '''' = []"
  by (simp_all add: with_age_def no_metadata_def get_QString_def)

text \<open>
  The value 30 against the range point (20,40) is accepted and against (41,50) rejected; a
  first record with no value is accepted; equal strings are accepted.
\<close>

theorem MetadataDistance_compare_gate_witness:
  "MetadataDistance_compare example_utils [''Age'']
     (with_age (VString ''30'')) (with_age (VPoint (20, 40))) = Some 0 \<and>
   MetadataDistance_compare example_utils [''Age'']
     (with_age (VString ''30'')) (with_age (VPoint (41, 50))) = Some (- FLT_MAX) \<and>
   MetadataDistance_compare example_utils [''Age'']
     no_metadata (with_age (VPoint (41, 50))) = Some 0 \<and>
   MetadataDistance_compare example_utils [''Age'']
     (with_age (VString ''30'')) (with_age (VString ''30'')) = Some 0"
proof -
  have "(20::int) \<le> 30 \<and> (30::int) \<le> 40 \<and> ''30'' = number 30"
    by (simp add: number_def digits.simps)
  then have in_range: "\<exists>v. (20::int) \<le> v \<and> v \<le> 40 \<and> ''30'' = number v"
    by (intro exI [of _ 30])
  have "range_loop ''30'' 41 50 = Some False"
    by (simp add: number_def digits.simps range_loop.simps INT_MAX_def)
  then have out_of_range: "\<not> (\<exists>v. (41::int) \<le> v \<and> v \<le> 50 \<and> ''30'' = number v)"
    using range_loop_below_INT_MAX [of 41 50 "''30''"] by (simp add: INT_MAX_def)
  have d: "\<forall>key \<in> set [''Age'']. key_defined example_utils
             (with_age (VString ''30'')) (with_age (VPoint (20, 40))) key"
    "\<forall>key \<in> set [''Age'']. key_defined example_utils
             (with_age (VString ''30'')) (with_age (VPoint (41, 50))) key"
    "\<forall>key \<in> set [''Age'']. key_defined example_utils
             no_metadata (with_age (VPoint (41, 50))) key"
    "\<forall>key \<in> set [''Age'']. key_defined example_utils
             (with_age (VString ''30'')) (with_age (VString ''30'')) key"
    by (simp_all add: key_defined_def example_query_values example_points example_conversions
        example_values INT_MAX_def)
  have m1: "\<not> (\<exists>key \<in> set [''Age'']. \<not> key_matches example_utils
                 (with_age (VString ''30'')) (with_age (VPoint (20, 40))) key)"
    using in_range
    by (simp add: key_matches_def example_query_values example_points example_conversions
        example_values)
  have m2: "\<exists>key \<in> set [''Age'']. \<not> key_matches example_utils
                 (with_age (VString ''30'')) (with_age (VPoint (41, 50))) key"
    using out_of_range
    by (simp add: key_matches_def example_query_values example_points example_conversions
        example_values)
  have m3: "\<not> (\<exists>key \<in> set [''Age'']. \<not> key_matches example_utils
                 no_metadata (with_age (VPoint (41, 50))) key)"
    by (simp add: key_matches_def example_values)
  have m4: "\<not> (\<exists>key \<in> set [''Age'']. \<not> key_matches example_utils
                 (with_age (VString ''30'')) (with_age (VString ''30'')) key)"
    by (simp add: key_matches_def example_query_values example_points example_values)
  have 1: "MetadataDistance_compare example_utils [''Age'']
     (with_age (VString ''30'')) (with_age (VPoint (20, 40))) = Some 0"
    using m1 MetadataDistance_compare_gate [OF d(1)] by metis
  have 2: "MetadataDistance_compare example_utils [''Age'']
     (with_age (VString ''30'')) (with_age (VPoint (41, 50))) = Some (- FLT_MAX)"
    using m2 MetadataDistance_compare_gate [OF d(2)] by metis
  have 3: "MetadataDistance_compare example_utils [''Age'']
     no_metadata (with_age (VPoint (41, 50))) = Some 0"
    using m3 MetadataDistance_compare_gate [OF d(3)] by metis
  have 4: "MetadataDistance_compare example_utils [''Age'']
     (with_age (VString ''30'')) (with_age (VString ''30'')) = Some 0"
    using m4 MetadataDistance_compare_gate [OF d(4)] by metis
  from 1 2 3 4 show ?thesis by (intro conjI)
qed

lemma digits_chars: "set (digits n) \<subseteq> set ''0123456789''"
proof (induction n rule: digits.induct)
  case (1 n)
  show ?case
  proof (cases "n < 10")
    case True
    then have "''0123456789'' ! n \<in> set ''0123456789''"
      by (intro nth_mem) simp
    with True show ?thesis by (subst digits.simps) simp
  next
    case False
    have "n mod 10 < 10" by simp
    then have "''0123456789'' ! (n mod 10) \<in> set ''0123456789''"
      by (intro nth_mem) simp
    with False "1.IH" show ?thesis by (subst digits.simps) simp
  qed
qed

lemma number_not_x: "number v \<noteq> ''x''"
proof
  assume x: "number v = ''x''"
  show False
  proof (cases "v < 0")
    case True
    with x show False by (simp add: number_def)
  next
    case False
    with x have "digits (nat v) = ''x''" by (simp add: number_def)
    then have "CHR ''x'' \<in> set (digits (nat v))" by simp
    with digits_chars [of "nat v"] show False by auto
  qed
qed

text \<open>
  The claim as it is worded fails on the code in two places. With the query point (20.9,40.9)
  the code accepts the value 20, which is not in the range between the coordinates: line 172
  drops the fraction. With the query point (18,2147483647) and the value x, which no integer
  prints as, the claim has the sentinel returned; the scan of lines 175 to 181 comes to the
  largest \<^verbatim>\<open>int\<close> without a match and its increment is not defined.
\<close>

theorem MetadataDistance_compare_gate_counterexample:
  "MetadataDistance_compare example_utils [''Age'']
     (with_age (VString ''20'')) (with_age (VPoint (209 / 10, 409 / 10))) = Some 0 \<and>
   \<not> key_matches_as_claimed example_utils
     (with_age (VString ''20'')) (with_age (VPoint (209 / 10, 409 / 10))) ''Age'' \<and>
   MetadataDistance_compare example_utils [''Age'']
     (with_age (VString ''x'')) (with_age (VPoint (18, 2147483647))) = None \<and>
   \<not> key_matches_as_claimed example_utils
     (with_age (VString ''x'')) (with_age (VPoint (18, 2147483647))) ''Age''"
proof -
  have "range_loop ''20'' 20 40 = Some True"
    by (subst range_loop.simps) (simp add: number_def digits.simps)
  then have 1: "MetadataDistance_compare example_utils [''Age'']
     (with_age (VString ''20'')) (with_age (VPoint (209 / 10, 409 / 10))) = Some 0"
    using example_query_values(3) example_points(3)
    by (simp add: Let_def example_values example_conversions query_value_def)
  have "range_loop ''20'' 21 40 = Some False"
    by (simp add: number_def digits.simps range_loop.simps INT_MAX_def)
  then have none: "\<not> (\<exists>v. (21::int) \<le> v \<and> v \<le> 40 \<and> ''20'' = number v)"
    using range_loop_below_INT_MAX [of 21 40 "''20''"] by (simp add: INT_MAX_def)
  have "\<not> (\<exists>v. 209 / 10 \<le> real_of_int v \<and> real_of_int v \<le> 409 / 10 \<and> ''20'' = number v)"
  proof
    assume "\<exists>v. 209 / 10 \<le> real_of_int v \<and> real_of_int v \<le> 409 / 10 \<and> ''20'' = number v"
    then obtain v where v: "209 / 10 \<le> real_of_int v" "real_of_int v \<le> 409 / 10"
      "''20'' = number v" by blast
    from v(1) have "\<lceil>209 / 10 :: real\<rceil> \<le> v" by (simp only: ceiling_le_iff)
    then have "21 \<le> v" by simp
    moreover from v(2) have "v \<le> \<lfloor>409 / 10 :: real\<rfloor>" by (simp only: le_floor_iff)
    then have "v \<le> 40" by simp
    ultimately show False using v(3) none by blast
  qed
  then have 2: "\<not> key_matches_as_claimed example_utils
     (with_age (VString ''20'')) (with_age (VPoint (209 / 10, 409 / 10))) ''Age''"
    by (simp add: key_matches_as_claimed_def example_query_values example_points example_values)
  have "range_loop ''x'' 18 INT_MAX = None"
    using number_not_x [symmetric] by (simp add: range_loop_eq INT_MAX_def)
  then have 3: "MetadataDistance_compare example_utils [''Age'']
     (with_age (VString ''x'')) (with_age (VPoint (18, 2147483647))) = None"
    using example_query_values(4) example_points(4)
    by (simp add: Let_def example_values example_conversions query_value_def)
  have 4: "\<not> key_matches_as_claimed example_utils
     (with_age (VString ''x'')) (with_age (VPoint (18, 2147483647))) ''Age''"
    using number_not_x [symmetric]
    by (simp add: key_matches_as_claimed_def example_query_values example_points example_values)
  from 1 2 3 4 show ?thesis by (intro conjI)
qed

section \<open>CrossValidateTransform: project\<close>

text \<open>
  C6, amended. For every record whose partition attribute (0 when it has none) is a position
  of the ensemble, project returns what the model at that position projects; the template is
  the same for every ensemble that has the same model at that position, so no other model is
  consulted; and a call that returns leaves the ensemble it was called on.
\<close>

theorem project_routes:
  "(0 \<le> partition_of src \<and> partition_of src < int (length (transforms self)) \<longrightarrow>
      project ops self src =
        Some (project_model ops (transforms self ! nat (partition_of src)) src, self)) \<and>
   (0 \<le> partition_of src \<and> partition_of src < int (length (transforms self)) \<and>
    partition_of src < int (length (transforms other)) \<and>
    transforms other ! nat (partition_of src) = transforms self ! nat (partition_of src) \<longrightarrow>
      map_option fst (project ops other src) = map_option fst (project ops self src)) \<and>
   (project ops self src = Some (dst, after) \<longrightarrow> after = self)"
  by (auto simp: project_def partition_of_def Let_def split: if_splits)

theorem project_routes_witness:
  "project example_ops two_models (in_partition 1) =
     Some ((in_partition 1)\<lparr>mat := [7]\<rparr>, two_models) \<and>
   map_option fst (project example_ops (two_models\<lparr>transforms := [4, 7, 9]\<rparr>) (in_partition 1))
     = map_option fst (project example_ops two_models (in_partition 1))"
proof -
  have p: "partition_of (in_partition 1) = 1"
    by (simp add: partition_of_def in_partition_def get_int_def)
  have t: "transforms two_models = [3, 7]"
    by (simp add: two_models_def)
  have 1: "project example_ops two_models (in_partition 1) =
     Some ((in_partition 1)\<lparr>mat := [7]\<rparr>, two_models)"
    using project_routes [where src = "in_partition 1" and self = two_models
        and ops = example_ops and other = two_models]
    by (simp add: p t example_ops_def)
  have 2: "map_option fst
             (project example_ops (two_models\<lparr>transforms := [4, 7, 9]\<rparr>) (in_partition 1))
     = map_option fst (project example_ops two_models (in_partition 1))"
    using project_routes [where src = "in_partition 1" and self = two_models
        and other = "two_models\<lparr>transforms := [4, 7, 9]\<rparr>" and ops = example_ops]
    by (simp add: p t)
  from 1 2 show ?thesis by (intro conjI)
qed

text \<open>
  The claim has the call fail and leave the ensemble when the partition has no model. Line 69
  has no test: with two models and partition 2, or partition - 1, the source defines no
  outcome of the call, neither a failure nor an ensemble after it.
\<close>

theorem project_routes_counterexample:
  "project example_ops two_models (in_partition 2) = None \<and>
   map_option snd (project example_ops two_models (in_partition 2)) \<noteq> Some two_models \<and>
   project example_ops two_models (in_partition (- 1)) = None"
  by (simp add: project_def two_models_def in_partition_def get_int_def)

section \<open>CrossValidateTransform: the number of partitions and the ensemble\<close>

lemma assign_eq:
  "assign fs n ps =
     (fold (\<lambda>f n. max n (get_int f ''Partition'' 0 + 1)) fs n,
      ps @ map (\<lambda>f. get_int f ''Partition'' 0) fs)"
  by (induction fs arbitrary: n ps) (simp_all add: Let_def)

lemma fold_max_eq:
  "fold (\<lambda>f n. max n (g f + 1)) fs (n::int) = Max (insert n ((\<lambda>f. g f + 1) ` set fs))"
proof (induction fs arbitrary: n)
  case Nil
  show ?case by simp
next
  case (Cons f fs)
  have "Max (insert (max n (g f + 1)) ((\<lambda>f. g f + 1) ` set fs)) =
        Max (insert n (insert (g f + 1) ((\<lambda>f. g f + 1) ` set fs)))"
    by (cases "set fs = {}") (simp_all add: max.assoc max.commute max.left_commute)
  then show ?case by (simp add: Cons.IH)
qed

lemma numPartitions_eq:
  "numPartitions data = Max (insert 0 ((\<lambda>t. partition_of t + 1) ` set data))"
  by (simp add: numPartitions_def assign_eq files_def fold_max_eq partition_of_def image_image)

lemma partitions_eq:
  "snd (assign (files data) 0 []) = map partition_of data"
  by (simp add: assign_eq files_def partition_of_def)

lemma grow_eq:
  "grow ops d n ts = ts @ replicate (nat (n - int (length ts))) (make_model ops d)"
proof (induction ops d n ts rule: grow.induct)
  case (1 ops d n ts)
  show ?case
  proof (cases "int (length ts) < n")
    case True
    then have "nat (n - int (length ts)) = Suc (nat (n - int (length (ts @ [make_model ops d]))))"
      by simp
    with True "1.IH" show ?thesis
      by (subst grow.simps) (simp add: replicate_app_Cons_same)
  next
    case False
    then show ?thesis by (subst grow.simps) simp
  qed
qed

text \<open>
  C1. A dataset with fewer than two partitions is to be trained on by exactly one model,
  made by the factory when the ensemble has none. On the empty dataset the number of
  partitions is 0, the loop of lines 36 and 37 makes no model, and \<^verbatim>\<open>transforms.first()\<close>
  at line 40 reads the first element of an empty list: train fails and no model exists.
\<close>

theorem train_empty_ensemble_fails:
  "train ops \<lparr>description = d, leaveOneOut = loo, transforms = []\<rparr> [] = Inl EmptyList"
  by (simp add: train_def files_def grow_eq)

text \<open>
  With fewer than two partitions, when the ensemble is not empty or the number of partitions
  is 1, the first model of the ensemble is trained on the whole dataset and no other model
  changes.
\<close>

lemma train_degenerate:
  assumes "numPartitions data < 2" "transforms self \<noteq> [] \<or> numPartitions data = 1"
  shows "train ops self data =
     Inr (self\<lparr>transforms :=
            train_model ops (hd (grow ops (description self) 1 (transforms self))) data
            # tl (grow ops (description self) 1 (transforms self))\<rparr>)"
proof -
  obtain n ps where a: "assign (files data) 0 [] = (n, ps)" by force
  then have n: "n = numPartitions data" by (simp add: numPartitions_def)
  have g: "grow ops (description self) n (transforms self) =
           grow ops (description self) 1 (transforms self)"
    using assms n by (cases "transforms self") (auto simp: grow_eq)
  have "grow ops (description self) 1 (transforms self) \<noteq> []"
    by (simp add: grow_eq)
  then obtain t rest where tr: "grow ops (description self) 1 (transforms self) = t # rest"
    by (cases "grow ops (description self) 1 (transforms self)") auto
  have "n < 2" using assms n by simp
  then show ?thesis
    unfolding train_def a by (simp add: g tr)
qed

section \<open>Removing positions from a list\<close>

lemma nths_cong_below:
  assumes "\<And>k. k < length xs \<Longrightarrow> k \<in> A \<longleftrightarrow> k \<in> B"
  shows "nths xs A = nths xs B"
proof -
  have "filter (\<lambda>p. snd p \<in> A) (zip xs [0..<length xs]) =
        filter (\<lambda>p. snd p \<in> B) (zip xs [0..<length xs])"
  proof (rule filter_cong [OF refl])
    fix p assume "p \<in> set (zip xs [0..<length xs])"
    then have "(fst p, snd p) \<in> set (zip xs [0..<length xs])"
      by simp
    then have "snd p \<in> set [0..<length xs]"
      by (rule set_zip_rightD)
    then show "(snd p \<in> A) = (snd p \<in> B)"
      using assms by simp
  qed
  then show ?thesis by (simp add: nths_def)
qed

lemma nths_UNIV: "nths xs UNIV = xs"
  by (simp add: nths_all)

lemma nths_removeAt:
  assumes p: "p < length xs" and below: "\<And>q. q \<in> R \<Longrightarrow> q < p"
  shows "nths (take p xs @ drop (Suc p) xs) (- R) = nths xs (- insert p R)"
proof -
  have m: "min (length xs) p = p" using p by simp
  have notin: "\<And>j. j + p \<notin> R" "\<And>j. Suc (j + p) \<notin> R"
    using below by fastforce+
  have front: "nths (take p xs) (- insert p R) = nths (take p xs) (- R)"
    by (rule nths_cong_below) (use p in auto)
  have "nths xs (- insert p R) = nths (take p xs @ xs ! p # drop (Suc p) xs) (- insert p R)"
    using id_take_nth_drop [OF p] by simp
  also have "\<dots> = nths (take p xs) (- insert p R) @ drop (Suc p) xs"
    by (simp add: nths_append nths_Cons m notin nths_UNIV del: append_take_drop_id)
  also have "\<dots> = nths (take p xs @ drop (Suc p) xs) (- R)"
    by (simp add: nths_append m notin nths_UNIV front)
  finally show ?thesis by simp
qed

lemma remove_pairs_descending:
  assumes "sorted_wrt (>) (map fst pairs)" "\<forall>p \<in> set pairs. fst p < length xs"
  shows "remove_pairs xs pairs = Inr (nths xs (- fst ` set pairs))"
  using assms
proof (induction pairs arbitrary: xs)
  case Nil
  show ?case by (simp add: nths_UNIV)
next
  case (Cons pair pairs)
  let ?p = "fst pair"
  let ?xs' = "take ?p xs @ drop (Suc ?p) xs"
  have p: "?p < length xs" using Cons.prems by simp
  have below: "\<And>q. q \<in> fst ` set pairs \<Longrightarrow> q < ?p"
    using Cons.prems(1) by auto
  have "\<forall>q \<in> set pairs. fst q < length ?xs'"
  proof
    fix q assume "q \<in> set pairs"
    then have "fst q < ?p" using below by simp
    with p show "fst q < length ?xs'" by simp
  qed
  moreover have "sorted_wrt (>) (map fst pairs)" using Cons.prems(1) by simp
  ultimately have "remove_pairs ?xs' pairs = Inr (nths ?xs' (- fst ` set pairs))"
    by (rule Cons.IH [rotated])
  then show ?case
    using p nths_removeAt [OF p below] by (simp add: removeAt_def)
qed

lemma map_fst_dedup_first:
  "set (map fst (dedup_first ps)) = set (map fst ps) \<and> distinct (map fst (dedup_first ps))"
  by (induction ps) auto

lemma distinct_map_sort_key:
  "distinct (map f (sort_key f xs)) = distinct (map f xs)"
  by (induction xs) (simp_all add: distinct_insort_key)

lemma Sort_descending:
  "sorted_wrt (>) (map fst (Sort removed True)) \<and> fst ` set (Sort removed True) = set removed"
proof -
  let ?ps = "dedup_first (zip removed [0..<length removed])"
  have "sorted (map fst (sort_key fst ?ps))" by (rule sorted_sort_key)
  moreover have "distinct (map fst (sort_key fst ?ps))"
    by (simp add: distinct_map_sort_key map_fst_dedup_first)
  ultimately have "sorted_wrt (<) (map fst (sort_key fst ?ps))"
    by (simp add: strict_sorted_iff)
  then have "sorted_wrt (>) (rev (map fst (sort_key fst ?ps)))"
    by (simp add: sorted_wrt_rev)
  moreover have "fst ` set ?ps = set removed"
    using map_fst_dedup_first [of "zip removed [0..<length removed]"] by simp
  ultimately show ?thesis by (simp add: Sort_def rev_map)
qed

lemma remove_pairs_Sort:
  assumes "\<forall>p \<in> set removed. p < length xs"
  shows "remove_pairs xs (Sort removed True) = Inr (nths xs {k. k \<notin> set removed})"
proof -
  have "\<forall>p \<in> set (Sort removed True). fst p < length xs"
    using assms Sort_descending [of removed] by auto
  then have "remove_pairs xs (Sort removed True) = Inr (nths xs (- fst ` set (Sort removed True)))"
    using Sort_descending [of removed] by (intro remove_pairs_descending) simp_all
  then show ?thesis
    using Sort_descending [of removed] by (simp add: Compl_eq)
qed

section \<open>CrossValidateTransform: the exclusion scan\<close>

lemma find_QString_Subject:
  assumes "Subject (data ! j) = Inr s"
  shows "find_QString data ''Subject'' s = subject_positions data j"
proof -
  have "(map_of (file t) ''Subject'' = Some (VString s)) = (Subject t = Inr s)" for t
    by (auto simp: Subject_def get_QString_required_def split: option.splits QVariant.splits)
  then show ?thesis
    using assms by (simp add: find_QString_def subject_positions_def)
qed

lemma subject_positions_self:
  "j < length data \<Longrightarrow> j \<in> set (subject_positions data j)"
  by (simp add: subject_positions_def)

lemma subject_positions_bound:
  "p \<in> set (subject_positions data j) \<Longrightarrow> p < length data"
  by (simp add: subject_positions_def)

lemma subject_positions_nonempty:
  "j < length data \<Longrightarrow> 0 < length (subject_positions data j)"
  using subject_positions_self [of j data] by (cases "subject_positions data j") auto

lemma loo_excluded_bound:
  assumes "j < length data" "p \<in> set (loo_excluded data i j)"
  shows "p < length data"
proof -
  let ?S = "subject_positions data j"
  have "0 < length ?S" using assms(1) by (rule subject_positions_nonempty)
  then have "?S ! (i mod length ?S) \<in> set ?S" by simp
  then have "?S ! (i mod length ?S) < length data" by (rule subject_positions_bound)
  then show ?thesis
    using assms(2) by (simp add: loo_excluded_def Let_def split: if_splits)
qed

lemma exclude_step_loo:
  assumes "j < length data" "\<not> isl (Subject (data ! j))"
  shows "exclude_step True partitions data i j removed = Inr (removed @ loo_excluded data i j)"
proof -
  obtain s where s: "Subject (data ! j) = Inr s"
    using assms(2) by (cases "Subject (data ! j)") auto
  then have r: "get_QString_required (file (data ! j)) ''Subject'' = Inr s"
    by (simp add: Subject_def)
  have "0 < length (subject_positions data j)"
    using assms(1) by (rule subject_positions_nonempty)
  then show ?thesis
    using assms(1)
    by (simp add: exclude_step_def r find_QString_Subject [OF s] loo_excluded_def Let_def)
qed

lemma exclude_scan_loo:
  assumes "n \<le> length data" "\<forall>j < n. \<not> isl (Subject (data ! j))"
  shows "exclude_scan True partitions data i n removed =
           Inr (removed @ concat (map (loo_excluded data i) (rev [0..<n])))"
  using assms
proof (induction n arbitrary: removed)
  case 0
  show ?case by simp
next
  case (Suc n)
  have "exclude_step True partitions data i n removed = Inr (removed @ loo_excluded data i n)"
    using Suc.prems by (intro exclude_step_loo) simp_all
  moreover have "exclude_scan True partitions data i n (removed @ loo_excluded data i n) =
      Inr ((removed @ loo_excluded data i n) @ concat (map (loo_excluded data i) (rev [0..<n])))"
    using Suc.prems by (intro Suc.IH) simp_all
  ultimately show ?case by simp
qed

lemma exclude_scan_by_partition:
  "n \<le> length partitions \<Longrightarrow>
   exclude_scan False partitions data i n removed =
     Inr (removed @ filter (\<lambda>j. partitions ! j = int i) (rev [0..<n]))"
  by (induction n arbitrary: removed) (simp_all add: exclude_step_def)

lemma exclude_step_bound:
  assumes "exclude_step loo partitions data i j removed0 = Inr removed"
    "j < length data" "\<forall>p \<in> set removed0. p < length data"
  shows "\<forall>p \<in> set removed. p < length data"
proof (cases loo)
  case False
  with assms show ?thesis by (auto simp: exclude_step_def split: if_splits)
next
  case True
  show ?thesis
  proof (cases "get_QString_required (file (data ! j)) ''Subject''")
    case (Inl e)
    with True assms(1,2) show ?thesis by (simp add: exclude_step_def)
  next
    case (Inr s)
    then have s: "Subject (data ! j) = Inr s" by (simp add: Subject_def)
    then have "\<not> isl (Subject (data ! j))" by simp
    with assms(2) have "exclude_step True partitions data i j removed0 =
        Inr (removed0 @ loo_excluded data i j)"
      by (intro exclude_step_loo)
    with True assms(1) have "removed = removed0 @ loo_excluded data i j" by simp
    with assms(2,3) show ?thesis by (auto dest: loo_excluded_bound)
  qed
qed

lemma exclude_scan_bound:
  assumes "exclude_scan loo partitions data i n removed0 = Inr removed"
    "n \<le> length data" "\<forall>p \<in> set removed0. p < length data"
  shows "\<forall>p \<in> set removed. p < length data"
  using assms
proof (induction n arbitrary: removed0)
  case 0
  then show ?case by simp
next
  case (Suc n)
  show ?case
  proof (cases "exclude_step loo partitions data i n removed0")
    case (Inl e)
    with Suc.prems(1) show ?thesis by simp
  next
    case (Inr removed1)
    have "n < length data"
      using Suc.prems(2) by simp
    with Inr have "\<forall>p \<in> set removed1. p < length data"
      using Suc.prems(3) by (rule exclude_step_bound)
    moreover have "exclude_scan loo partitions data i n removed1 = Inr removed"
      using Inr Suc.prems(1) by simp
    moreover have "n \<le> length data"
      using Suc.prems(2) by simp
    ultimately show ?thesis
      using Suc.IH [of removed1] by blast
  qed
qed

lemma partitioned_nths:
  assumes "exclude_scan loo partitions data i (length data) [] = Inr removed"
  shows "partitioned loo partitions data i = Inr (nths data {k. k \<notin> set removed})"
proof -
  have "\<forall>p \<in> set removed. p < length data"
    using assms by (rule exclude_scan_bound) simp_all
  then have "remove_pairs data (Sort removed True) = Inr (nths data {k. k \<notin> set removed})"
    by (rule remove_pairs_Sort)
  then show ?thesis
    using assms by (simp add: partitioned_def)
qed

lemma partitioned_loo:
  assumes "\<forall>t \<in> set data. \<not> isl (Subject t)"
  shows "partitioned True partitions data i =
     Inr (nths data
            {k. k \<notin> set (concat (map (loo_excluded data i) (rev [0..<length data])))})"
proof -
  have "\<forall>j < length data. \<not> isl (Subject (data ! j))"
    using assms by simp
  then have "exclude_scan True partitions data i (length data) [] =
      Inr ([] @ concat (map (loo_excluded data i) (rev [0..<length data])))"
    by (intro exclude_scan_loo) simp_all
  then show ?thesis
    by (intro partitioned_nths) simp
qed

lemma partitioned_by_partition:
  "partitioned False (map partition_of data) data i =
     Inr (filter (\<lambda>t. partition_of t \<noteq> int i) data)"
proof -
  let ?removed = "filter (\<lambda>j. map partition_of data ! j = int i) (rev [0..<length data])"
  have scan: "exclude_scan False (map partition_of data) data i (length data) [] = Inr ?removed"
    by (simp add: exclude_scan_by_partition)
  have "\<forall>p \<in> set ?removed. p < length data" by simp
  then have "remove_pairs data (Sort ?removed True) = Inr (nths data {k. k \<notin> set ?removed})"
    by (rule remove_pairs_Sort)
  moreover have "nths data {k. k \<notin> set ?removed} =
                 nths data {k. k < length data \<and> partition_of (data ! k) \<noteq> int i}"
    by (rule nths_cong_below) auto
  ultimately show ?thesis
    by (simp add: partitioned_def scan filter_eq_nths)
qed

lemma three_records_Subject: "\<forall>t \<in> set three_records. \<not> isl (Subject t)"
  by (simp add: three_records_def subject_in_def Subject_def get_QString_required_def)

text \<open>
  C3. In leave-one-out mode, on a dataset whose records all carry a subject, the scan for
  partition \<open>i\<close> visits every position once, from the last to the first, on the working copy
  before any removal. At position \<open>j\<close>, with \<open>S\<close> the ordered positions of the records that share
  the subject of record \<open>j\<close>, it adds a position exactly when \<open>i\<close> is strictly greater than
  \<open>|S|\<close>, and the position added is \<open>S[i mod |S|]\<close>; what one position adds does not depend on
  what the others added.
\<close>

theorem loo_exclusion_rule:
  assumes "\<forall>t \<in> set data. \<not> isl (Subject t)"
  shows "exclude_scan True partitions data i (length data) [] =
           Inr (concat (map (loo_excluded data i) (rev [0..<length data]))) \<and>
         (\<forall>j < length data.
            exclude_step True partitions data i j removed = Inr (removed @ loo_excluded data i j) \<and>
            (loo_excluded data i j \<noteq> [] \<longleftrightarrow> i > length (subject_positions data j)) \<and>
            (i > length (subject_positions data j) \<longrightarrow>
               loo_excluded data i j =
                 [subject_positions data j ! (i mod length (subject_positions data j))]))"
proof -
  have all: "\<forall>j < length data. \<not> isl (Subject (data ! j))"
    using assms by simp
  then have "exclude_scan True partitions data i (length data) [] =
      Inr ([] @ concat (map (loo_excluded data i) (rev [0..<length data])))"
    by (intro exclude_scan_loo) simp_all
  moreover have "exclude_step True partitions data i j removed =
      Inr (removed @ loo_excluded data i j)" if "j < length data" for j
    using that all by (intro exclude_step_loo) simp_all
  ultimately show ?thesis by (simp add: loo_excluded_def Let_def)
qed

theorem loo_exclusion_rule_witness:
  "exclude_scan True [0, 1, 3] three_records 3 (length three_records) [] = Inr [2, 1, 1] \<and>
   subject_positions three_records 0 = [0, 1] \<and>
   exclude_step True [0, 1, 3] three_records 3 0 [2, 1] = Inr [2, 1, 1] \<and>
   exclude_step True [0, 1, 3] three_records 2 0 [] = Inr []"
proof -
  have c: "concat (map (loo_excluded three_records 3) (rev [0..<length three_records])) = [2, 1, 1]"
    by code_simp
  have s: "subject_positions three_records 0 = [0, 1]"
    by code_simp
  have e3: "loo_excluded three_records 3 0 = [1]" and e2: "loo_excluded three_records 2 0 = []"
    by code_simp+
  have l: "0 < length three_records"
    by (simp add: three_records_def)
  note rule = loo_exclusion_rule [OF three_records_Subject]
  have 1: "exclude_scan True [0, 1, 3] three_records 3 (length three_records) [] = Inr [2, 1, 1]"
    using rule [of "[0, 1, 3]" 3 "[]"] c by simp
  have 3: "exclude_step True [0, 1, 3] three_records 3 0 [2, 1] = Inr [2, 1, 1]"
    using rule [of "[0, 1, 3]" 3 "[2, 1]"] l e3 by simp
  have 4: "exclude_step True [0, 1, 3] three_records 2 0 [] = Inr []"
    using rule [of "[0, 1, 3]" 2 "[]"] l e2 by simp
  from 1 s 3 4 show ?thesis by (intro conjI)
qed

text \<open>
  C4. The positions collected by the scan are removed in descending order, each once: the
  removal does not fail, and what is left of the working copy is exactly the records at the
  positions that are not in the exclusion list, however often a position occurs in it.
\<close>

theorem removal_sorted_deduplicated:
  assumes "exclude_scan loo partitions data i (length data) [] = Inr removed"
  shows "sorted_wrt (>) (map fst (Sort removed True)) \<and>
         fst ` set (Sort removed True) = set removed \<and>
         partitioned loo partitions data i = Inr (nths data {k. k \<notin> set removed})"
  using partitioned_nths [OF assms] Sort_descending [of removed] by simp

theorem removal_sorted_deduplicated_witness:
  "map fst (Sort [2, 1, 1] True) = [2, 1] \<and>
   partitioned True [0, 1, 3] three_records 3 = Inr [subject_in ''A'' 0]"
proof -
  have scan: "exclude_scan True [0, 1, 3] three_records 3 (length three_records) [] = Inr [2, 1, 1]"
    by code_simp
  have n: "nths three_records {k. k \<notin> set [2, 1, 1]} = [subject_in ''A'' 0]"
    by (simp add: three_records_def nths_Cons)
  have s: "map fst (Sort [2, 1, 1] True) = [2, 1]"
    by code_simp
  have "partitioned True [0, 1, 3] three_records 3 = Inr [subject_in ''A'' 0]"
    using removal_sorted_deduplicated [OF scan] n by simp
  with s show ?thesis by (intro conjI)
qed

text \<open>
  The deduplication is the work of \<^verbatim>\<open>Common::Sort\<close> alone: the loop of line 59 removes
  whatever positions it is given, and a position given twice takes the next record with it.
\<close>

lemma remove_pairs_repeated_position:
  "remove_pairs [a, b, c] [(1, 0), (1, 1)] = Inr [a]"
  by (simp add: removeAt_def)

section \<open>CrossValidateTransform: train with two partitions or more\<close>

lemma train_jobs_eq:
  assumes "distinct js" "\<forall>i \<in> set js. i < length ts"
    "\<forall>i \<in> set js. partitioned loo partitions data i = Inr (pd i)"
  shows "train_jobs ops loo partitions data js ts =
           Inr (map (\<lambda>k. if k \<in> set js then train_model ops (ts ! k) (pd k) else ts ! k)
                  [0..<length ts])"
  using assms
proof (induction js arbitrary: ts)
  case Nil
  show ?case by (simp add: map_nth)
next
  case (Cons i js)
  let ?ts' = "ts[i := train_model ops (ts ! i) (pd i)]"
  have i: "i < length ts" "i \<notin> set js" "partitioned loo partitions data i = Inr (pd i)"
    using Cons.prems by simp_all
  have "train_jobs ops loo partitions data js ?ts' =
          Inr (map (\<lambda>k. if k \<in> set js then train_model ops (?ts' ! k) (pd k) else ?ts' ! k)
                 [0..<length ?ts'])"
    using Cons.prems by (intro Cons.IH) simp_all
  moreover have "map (\<lambda>k. if k \<in> set js then train_model ops (?ts' ! k) (pd k) else ?ts' ! k)
                   [0..<length ?ts'] =
                 map (\<lambda>k. if k \<in> set (i # js) then train_model ops (ts ! k) (pd k) else ts ! k)
                   [0..<length ts]"
    using i by (auto simp: nth_list_update)
  ultimately show ?case using i by simp
qed

lemma train_cross_validate:
  assumes "2 \<le> numPartitions data"
    "\<forall>i < nat (numPartitions data).
       partitioned (leaveOneOut self) (map partition_of data) data i = Inr (pd i)"
  shows "train ops self data =
     Inr (self\<lparr>transforms :=
            map (\<lambda>k. if k < nat (numPartitions data)
                      then train_model ops
                             (grow ops (description self) (numPartitions data) (transforms self) ! k)
                             (pd k)
                      else grow ops (description self) (numPartitions data) (transforms self) ! k)
              [0..<length (grow ops (description self) (numPartitions data) (transforms self))]\<rparr>)"
proof -
  let ?n = "numPartitions data"
  let ?ts = "grow ops (description self) ?n (transforms self)"
  have a: "assign (files data) 0 [] = (?n, map partition_of data)"
    using partitions_eq [of data] by (simp add: numPartitions_def prod_eq_iff)
  have len: "nat ?n \<le> length ?ts"
    by (simp add: grow_eq)
  have "train_jobs ops (leaveOneOut self) (map partition_of data) data [0..<nat ?n] ?ts =
          Inr (map (\<lambda>k. if k \<in> set [0..<nat ?n] then train_model ops (?ts ! k) (pd k) else ?ts ! k)
                 [0..<length ?ts])"
    using assms(2) len by (intro train_jobs_eq) simp_all
  then show ?thesis
    using assms(1) unfolding train_def a by simp
qed

lemma length_grow: "length (grow ops d n ts) = max (length ts) (nat n)"
  by (simp add: grow_eq)

text \<open>
  C2. For a dataset with \<open>N \<ge> 2\<close> partitions, without leave-one-out, and every partition
  \<open>i < N\<close>: the working copy of partition \<open>i\<close> is the dataset without the records whose
  partition attribute is \<open>i\<close>, in their order; train succeeds, the ensemble has \<open>N\<close> models (or
  as many as it had, if more), and model \<open>i\<close> is the model at position \<open>i\<close> of the grown ensemble
  trained on that copy. The records of the copy are those of all the other partitions.
\<close>

theorem train_holds_out_partition:
  assumes "numPartitions data = int N" "2 \<le> N" "\<not> leaveOneOut self" "i < N"
  shows "partitioned (leaveOneOut self) (map partition_of data) data i =
           Inr (filter (\<lambda>t. partition_of t \<noteq> int i) data) \<and>
         (\<exists>self'. train ops self data = Inr self' \<and>
            length (transforms self') = max (length (transforms self)) N \<and>
            transforms self' ! i =
              train_model ops (grow ops (description self) (int N) (transforms self) ! i)
                (filter (\<lambda>t. partition_of t \<noteq> int i) data)) \<and>
         set (filter (\<lambda>t. partition_of t \<noteq> int i) data) =
           (\<Union>k \<in> {k. k \<noteq> int i}. {t \<in> set data. partition_of t = k})"
proof -
  let ?pd = "\<lambda>k. filter (\<lambda>t. partition_of t \<noteq> int k) data"
  let ?ts = "grow ops (description self) (int N) (transforms self)"
  have loo: "leaveOneOut self = False" using assms(3) by simp
  have "train ops self data =
     Inr (self\<lparr>transforms :=
            map (\<lambda>k. if k < nat (numPartitions data)
                      then train_model ops
                             (grow ops (description self) (numPartitions data) (transforms self) ! k)
                             (?pd k)
                      else grow ops (description self) (numPartitions data) (transforms self) ! k)
              [0..<length (grow ops (description self) (numPartitions data) (transforms self))]\<rparr>)"
    using assms(1,2) by (intro train_cross_validate) (simp_all add: loo partitioned_by_partition)
  then have t: "train ops self data =
     Inr (self\<lparr>transforms :=
            map (\<lambda>k. if k < N then train_model ops (?ts ! k) (?pd k) else ?ts ! k)
              [0..<length ?ts]\<rparr>)"
    by (simp add: assms(1))
  have "i < length ?ts" using assms(4) by (simp add: length_grow)
  then have "\<exists>self'. train ops self data = Inr self' \<and>
            length (transforms self') = max (length (transforms self)) N \<and>
            transforms self' ! i = train_model ops (?ts ! i) (?pd i)"
    using assms(4) by (simp add: t length_grow)
  moreover have "set (?pd i) = (\<Union>k \<in> {k. k \<noteq> int i}. {t \<in> set data. partition_of t = k})"
    by auto
  ultimately show ?thesis
    by (simp add: loo partitioned_by_partition)
qed

theorem train_holds_out_partition_witness:
  "partitioned False (map partition_of four_records) four_records 1 =
     Inr [in_partition 0, in_partition 2] \<and>
   (\<exists>self'. train example_ops (untrained False) four_records = Inr self' \<and>
      length (transforms self') = 3 \<and> transforms self' ! 1 = 2)"
proof -
  have n: "numPartitions four_records = int 3"
    by (simp add: numPartitions_eq four_records_def partition_of_def in_partition_def get_int_def)
  have l: "\<not> leaveOneOut (untrained False)"
    by (simp add: untrained_def)
  have f: "filter (\<lambda>t. partition_of t \<noteq> int 1) four_records = [in_partition 0, in_partition 2]"
    by (simp add: four_records_def partition_of_def in_partition_def get_int_def)
  have g: "grow example_ops (description (untrained False)) (int 3) (transforms (untrained False)) ! 1
           = 0"
    by (simp add: grow_eq untrained_def example_ops_def)
  have t: "train_model example_ops 0 [in_partition 0, in_partition 2] = 2"
    by (simp add: example_ops_def)
  have m: "max (length (transforms (untrained False))) 3 = 3"
    by (simp add: untrained_def)
  note inst = train_holds_out_partition [of four_records 3 "untrained False" 1 example_ops,
      OF n _ l, unfolded f g t m]
  then show ?thesis using l by simp
qed

text \<open>
  C9. In leave-one-out mode, on a dataset whose records all carry a subject, when \<open>i\<close> is at
  most the size of every subject group, and always when \<open>i\<close> is 0 or 1 (a record belongs to
  its own group), the exclusion list of partition \<open>i\<close> is empty and the working copy is the
  whole dataset; so train, with at least two partitions, trains model \<open>i\<close> on the whole dataset.
\<close>

theorem loo_small_partition_trains_on_all:
  assumes "\<forall>t \<in> set data. \<not> isl (Subject t)"
    and "i \<le> 1 \<or> (\<forall>j < length data. i \<le> length (subject_positions data j))"
  shows "exclude_scan True partitions data i (length data) [] = Inr [] \<and>
         partitioned True partitions data i = Inr data \<and>
         (leaveOneOut self \<and> 2 \<le> numPartitions data \<and> i < nat (numPartitions data) \<longrightarrow>
            (\<exists>self'. train ops self data = Inr self' \<and>
               transforms self' ! i =
                 train_model ops
                   (grow ops (description self) (numPartitions data) (transforms self) ! i) data))"
proof -
  have small: "i \<le> length (subject_positions data j)" if "j < length data" for j
  proof -
    have "1 \<le> length (subject_positions data j)"
      using subject_positions_nonempty [OF that] by linarith
    with assms(2) that show ?thesis by auto
  qed
  then have "loo_excluded data i j = []" if "j < length data" for j
    using that by (simp add: loo_excluded_def Let_def not_less [symmetric])
  then have none: "concat (map (loo_excluded data i) (rev [0..<length data])) = []"
    by simp
  have all: "\<forall>j < length data. \<not> isl (Subject (data ! j))"
    using assms(1) by simp
  then have "exclude_scan True partitions data i (length data) [] =
      Inr ([] @ concat (map (loo_excluded data i) (rev [0..<length data])))"
    by (intro exclude_scan_loo) simp_all
  then have scan: "exclude_scan True partitions data i (length data) [] = Inr []"
    by (simp add: none)
  have whole: "partitioned True partitions data i = Inr data" for partitions
    using partitioned_loo [OF assms(1), of partitions i] by (simp add: none nths_UNIV)
  have "\<exists>self'. train ops self data = Inr self' \<and>
               transforms self' ! i =
                 train_model ops
                   (grow ops (description self) (numPartitions data) (transforms self) ! i) data"
    if loo: "leaveOneOut self" and n: "2 \<le> numPartitions data" and i: "i < nat (numPartitions data)"
  proof -
    let ?pd = "\<lambda>k. nths data
            {p. p \<notin> set (concat (map (loo_excluded data k) (rev [0..<length data])))}"
    let ?ts = "grow ops (description self) (numPartitions data) (transforms self)"
    have pd: "?pd i = data" by (simp add: none nths_UNIV)
    have "train ops self data =
      Inr (self\<lparr>transforms :=
            map (\<lambda>k. if k < nat (numPartitions data) then train_model ops (?ts ! k) (?pd k)
                      else ?ts ! k)
              [0..<length ?ts]\<rparr>)"
      using n loo partitioned_loo [OF assms(1)] by (intro train_cross_validate) simp_all
    moreover have "i < length ?ts" using i by (simp add: length_grow)
    ultimately show ?thesis using i pd by simp
  qed
  with scan whole show ?thesis by blast
qed

theorem loo_small_partition_trains_on_all_witness:
  "exclude_scan True [0, 1, 3] three_records 1 (length three_records) [] = Inr [] \<and>
   partitioned True [0, 1, 3] three_records 0 = Inr three_records \<and>
   partitioned True [0, 2] two_of_one_subject 2 = Inr two_of_one_subject \<and>
   (\<exists>self'. train example_ops (untrained True) two_of_one_subject = Inr self' \<and>
      transforms self' ! 2 = 2)"
proof -
  have s: "\<forall>t \<in> set two_of_one_subject. \<not> isl (Subject t)"
    by (simp add: two_of_one_subject_def subject_in_def Subject_def get_QString_required_def)
  have g: "\<forall>j < length two_of_one_subject. 2 \<le> length (subject_positions two_of_one_subject j)"
    by code_simp
  have n: "numPartitions two_of_one_subject = 3"
    by (simp add: numPartitions_eq two_of_one_subject_def partition_of_def subject_in_def
        get_int_def)
  have l: "leaveOneOut (untrained True)"
    by (simp add: untrained_def)
  have t: "train_model example_ops
             (grow example_ops (description (untrained True)) 3 (transforms (untrained True)) ! 2)
             two_of_one_subject = 2"
    by (simp add: example_ops_def two_of_one_subject_def)
  have 1: "exclude_scan True [0, 1, 3] three_records 1 (length three_records) [] = Inr []"
    using loo_small_partition_trains_on_all [where data = three_records and i = 1
        and partitions = "[0, 1, 3]" and self = "untrained True" and ops = example_ops]
      three_records_Subject
    by simp
  have 2: "partitioned True [0, 1, 3] three_records 0 = Inr three_records"
    using loo_small_partition_trains_on_all [where data = three_records and i = 0
        and partitions = "[0, 1, 3]" and self = "untrained True" and ops = example_ops]
      three_records_Subject
    by simp
  have 3: "partitioned True [0, 2] two_of_one_subject 2 = Inr two_of_one_subject"
    using loo_small_partition_trains_on_all [where data = two_of_one_subject and i = 2
        and partitions = "[0, 2]" and self = "untrained True" and ops = example_ops] s g
    by simp
  have 4: "\<exists>self'. train example_ops (untrained True) two_of_one_subject = Inr self' \<and>
      transforms self' ! 2 = 2"
    using loo_small_partition_trains_on_all [where data = two_of_one_subject and i = 2
        and partitions = "[]" and self = "untrained True" and ops = example_ops] s g n l t
    by simp
  from 1 2 3 4 show ?thesis by (intro conjI)
qed

section \<open>CrossValidateTransform: store and load\<close>

lemma bytes_of_nat:
  fixes u :: nat
  assumes "u < 2 ^ 32"
  shows "((u div 2 ^ 24 mod 256 * 256 + u div 2 ^ 16 mod 256) * 256 + u div 2 ^ 8 mod 256) * 256
           + u mod 256 = u"
proof -
  have a: "u div 2 ^ 24 mod 256 = u div 2 ^ 24"
    using assms by (simp add: less_mult_imp_div_less)
  have d16: "u div 2 ^ 16 = u div 2 ^ 8 div 256"
    by (simp add: div_mult2_eq [symmetric])
  have d24: "u div 2 ^ 24 = u div 2 ^ 16 div 256"
    by (simp add: div_mult2_eq [symmetric])
  have "u div 2 ^ 24 * 256 + u div 2 ^ 16 mod 256 = u div 2 ^ 16"
    unfolding d24 by (rule div_mult_mod_eq)
  moreover have "u div 2 ^ 16 * 256 + u div 2 ^ 8 mod 256 = u div 2 ^ 8"
    unfolding d16 by (rule div_mult_mod_eq)
  moreover have "u div 2 ^ 8 * 256 + u mod 256 = u"
    using div_mult_mod_eq [of u 256] by simp
  ultimately show ?thesis by (simp only: a)
qed

lemma unat_byte:
  "unat (ucast (drop_bit k w) :: 8 word) = unat w div 2 ^ k mod 256" for w :: "32 word"
  unfolding unsigned_ucast_eq unat_drop_bit_eq
  by (simp add: take_bit_eq_mod drop_bit_eq_div)

lemma get_put_int32:
  assumes "- (2 ^ 31) \<le> n" "n < 2 ^ 31"
  shows "get_int32 (put_int32 n @ rest) = (n, rest)"
proof -
  let ?w = "word_of_int n :: 32 word"
  let ?u = "unat ?w"
  have u: "?u < 2 ^ 32" using unsigned_less [of ?w] by simp
  have low: "unat (ucast ?w :: 8 word) = ?u mod 256"
    using unat_byte [of 0 ?w] by simp
  have "(word_of_nat (((?u div 2 ^ 24 mod 256 * 256 + ?u div 2 ^ 16 mod 256) * 256
            + ?u div 2 ^ 8 mod 256) * 256 + ?u mod 256) :: 32 word) = ?w"
    unfolding bytes_of_nat [OF u] by simp
  moreover have "sint ?w = n"
    using assms by (simp add: sint_sbintrunc' signed_take_bit_int_eq_self)
  ultimately have "sint (word_of_nat (((?u div 2 ^ 24 mod 256 * 256 + ?u div 2 ^ 16 mod 256) * 256
            + ?u div 2 ^ 8 mod 256) * 256 + ?u mod 256) :: 32 word) = n"
    by (simp only:)
  then show ?thesis
    unfolding get_int32_def put_int32_def Let_def
    by (simp only: append_Cons append_Nil list.case unat_byte low)
qed

lemma store_each_eq:
  "store_each ops ts stream = stream @ concat (map (store_model ops) ts)"
  by (induction ts arbitrary: stream) simp_all

lemma store_eq:
  "store ops self stream =
     stream @ put_int32 (int (length (transforms self)))
       @ concat (map (store_model ops) (transforms self))"
  by (simp add: store_def store_each_eq)

lemma load_each_roundtrip:
  assumes "model_roundtrip ops" "length ts0 = length ts"
  shows "snd (load_each ops ts0 (concat (map (store_model ops) ts) @ rest)) = rest \<and>
         list_all2 (\<lambda>t' t. project_model ops t' = project_model ops t)
           (fst (load_each ops ts0 (concat (map (store_model ops) ts) @ rest))) ts"
  using assms(2)
proof (induction ts0 ts rule: list_induct2)
  case Nil
  show ?case by simp
next
  case (Cons t0 ts0 t ts)
  let ?tail = "concat (map (store_model ops) ts) @ rest"
  obtain t' s' where l: "load_model ops t0 (store_model ops t @ ?tail) = (t', s')"
    by force
  have "snd (load_model ops t0 (store_model ops t @ ?tail)) = ?tail"
    and "project_model ops (fst (load_model ops t0 (store_model ops t @ ?tail)))
         = project_model ops t"
    using assms(1) unfolding model_roundtrip_def by blast+
  with l have s': "s' = ?tail" and t': "project_model ops t' = project_model ops t"
    by simp_all
  obtain ts' s'' where r: "load_each ops ts0 ?tail = (ts', s'')"
    by force
  with Cons.IH have "s'' = rest"
    and "list_all2 (\<lambda>t' t. project_model ops t' = project_model ops t) ts' ts"
    by simp_all
  then show ?case
    using l r s' t' by simp
qed

lemma project_agree:
  assumes "length (transforms loaded) = length (transforms self)"
    "\<forall>k < length (transforms self).
       project_model ops (transforms loaded ! k) = project_model ops (transforms self ! k)"
  shows "map_option fst (project ops loaded probe) = map_option fst (project ops self probe)"
proof (cases "0 \<le> partition_of probe \<and> partition_of probe < int (length (transforms self))")
  case True
  then have "nat (partition_of probe) < length (transforms self)" by linarith
  with assms(2) have "project_model ops (transforms loaded ! nat (partition_of probe)) =
      project_model ops (transforms self ! nat (partition_of probe))"
    by blast
  with True assms(1) show ?thesis
    by (simp add: project_def partition_of_def Let_def)
next
  case False
  with assms(1) show ?thesis
    by (auto simp: project_def partition_of_def Let_def)
qed

text \<open>
  C5, amended. store appends the number of models of the ensemble, as a 32-bit integer, and
  then what each model stores, in the order of the ensemble. When the external model keeps
  its persistence contract, load on an object with no more models than were stored (as an
  object that has none), applied to what store wrote, consumes exactly those bytes, first
  makes the missing models with the factory and then lets every model load its own part; the
  ensemble it leaves has the length of the stored one, each of its models projects as the
  stored model at its position, and project gives the same template on every probe record.
\<close>

theorem store_load_roundtrip:
  assumes "model_roundtrip ops"
    and "length (transforms loader) \<le> length (transforms self)"
    and "length (transforms self) < 2 ^ 31"
  shows "store ops self stream =
           stream @ put_int32 (int (length (transforms self)))
             @ concat (map (store_model ops) (transforms self)) \<and>
         (\<exists>loaded. load ops loader (store ops self [] @ rest) = (loaded, rest) \<and>
            transforms loaded =
              fst (load_each ops
                     (transforms loader @
                      replicate (length (transforms self) - length (transforms loader))
                        (make_model ops (description loader)))
                     (concat (map (store_model ops) (transforms self)) @ rest)) \<and>
            length (transforms loaded) = length (transforms self) \<and>
            (\<forall>k < length (transforms self).
               project_model ops (transforms loaded ! k) =
               project_model ops (transforms self ! k)) \<and>
            (\<forall>probe. map_option fst (project ops loaded probe) = map_option fst (project ops self probe)))"
proof -
  let ?ts = "transforms self"
  let ?n = "int (length ?ts)"
  let ?payload = "concat (map (store_model ops) ?ts) @ rest"
  let ?grown = "transforms loader @
                replicate (length ?ts - length (transforms loader))
                  (make_model ops (description loader))"
  have "- (2 ^ 31) \<le> ?n" by simp
  moreover have "?n < 2 ^ 31"
    using assms(3) by (metis of_nat_less_iff of_nat_numeral of_nat_power)
  ultimately have int32: "get_int32 (put_int32 ?n @ ?payload) = (?n, ?payload)"
    by (rule get_put_int32)
  have g: "grow ops (description loader) ?n (transforms loader) = ?grown"
    using assms(2) by (simp add: grow_eq nat_diff_distrib' flip: of_nat_diff)
  have len0: "length ?grown = length ?ts"
    using assms(2) by simp
  obtain ts' s' where l: "load_each ops ?grown ?payload = (ts', s')"
    by force
  have s': "s' = rest"
    and all: "list_all2 (\<lambda>t' t. project_model ops t' = project_model ops t) ts' ?ts"
    using load_each_roundtrip [OF assms(1) len0, of rest] l by simp_all
  have len: "length ts' = length ?ts"
    using all by (rule list_all2_lengthD)
  have nth: "\<forall>k < length ?ts. project_model ops (ts' ! k) = project_model ops (?ts ! k)"
    using all by (simp add: list_all2_conv_all_nth)
  let ?loaded = "loader\<lparr>transforms := ts'\<rparr>"
  have "load ops loader (store ops self [] @ rest) = (?loaded, rest)"
    by (simp add: load_def store_eq int32 g l s')
  moreover have "transforms ?loaded = fst (load_each ops ?grown ?payload)"
    by (simp add: l)
  moreover have "length (transforms ?loaded) = length ?ts"
    by (simp add: len)
  moreover have "\<forall>k < length ?ts.
      project_model ops (transforms ?loaded ! k) = project_model ops (?ts ! k)"
    using nth by simp
  moreover have "\<forall>probe. map_option fst (project ops ?loaded probe) = map_option fst (project ops self probe)"
    using nth len by (intro allI project_agree) simp_all
  ultimately show ?thesis
    using store_eq [of ops self stream] by blast
qed

lemma example_ops_roundtrip: "model_roundtrip example_ops"
  by (simp add: model_roundtrip_def example_ops_def)

theorem store_load_roundtrip_witness:
  "store example_ops two_models [] = [0, 0, 0, 2, 3, 7] \<and>
   (\<exists>loaded. load example_ops (untrained False) [0, 0, 0, 2, 3, 7, 9] = (loaded, [9]) \<and>
      length (transforms loaded) = 2 \<and>
      map_option fst (project example_ops loaded (in_partition 1))
        = map_option fst (project example_ops two_models (in_partition 1)))"
proof -
  have l: "length (transforms (untrained False)) \<le> length (transforms two_models)"
    by (simp add: untrained_def two_models_def)
  have b: "length (transforms two_models) < 2 ^ 31"
    by (simp add: two_models_def)
  have p: "put_int32 (int (length (transforms two_models))) = [0, 0, 0, 2]"
    by (simp add: two_models_def put_int32_def)
  have c: "concat (map (store_model example_ops) (transforms two_models)) = [3, 7]"
    by (simp add: two_models_def example_ops_def)
  have s: "store example_ops two_models [] = [0, 0, 0, 2, 3, 7]"
    using store_load_roundtrip [OF example_ops_roundtrip l b, of "[]" "[9]"] p c by simp
  have "\<exists>loaded. load example_ops (untrained False) (store example_ops two_models [] @ [9])
          = (loaded, [9]) \<and>
      length (transforms loaded) = length (transforms two_models) \<and>
      (\<forall>probe. map_option fst (project example_ops loaded probe) = map_option fst (project example_ops two_models probe))"
    using store_load_roundtrip [OF example_ops_roundtrip l b, of "[]" "[9]"] by blast
  then have "\<exists>loaded. load example_ops (untrained False) [0, 0, 0, 2, 3, 7, 9] = (loaded, [9]) \<and>
      length (transforms loaded) = 2 \<and>
      map_option fst (project example_ops loaded (in_partition 1))
        = map_option fst (project example_ops two_models (in_partition 1))"
    unfolding s by (auto simp: two_models_def)
  with s show ?thesis by (intro conjI)
qed

text \<open>
  The claim as it is worded has no condition on the object that loads. Lines 83 and 84 only
  grow the ensemble: an object with the models 1, 2, 3 that loads the store of the single
  model 5 keeps three models, and answers partition 1 with its old model 2, where the stored
  ensemble has no model.
\<close>

theorem store_load_roundtrip_counterexample:
  "model_roundtrip example_ops \<and>
   transforms (fst (load example_ops three_models (store example_ops one_model []))) = [5, 2, 3] \<and>
   length (transforms (fst (load example_ops three_models (store example_ops one_model []))))
     \<noteq> length (transforms one_model) \<and>
   map_option fst
     (project example_ops (fst (load example_ops three_models (store example_ops one_model [])))
        (in_partition 1))
     = Some ((in_partition 1)\<lparr>mat := [2]\<rparr>) \<and>
   project example_ops one_model (in_partition 1) = None"
proof -
  have s: "store example_ops one_model [] = [0, 0, 0, 1, 5]"
    by (simp add: store_eq one_model_def put_int32_def example_ops_def)
  have g: "get_int32 [0, 0, 0, 1, 5] = (1, [5])"
    by (simp add: get_int32_def)
  have l: "load example_ops three_models [0, 0, 0, 1, 5] = (three_models\<lparr>transforms := [5, 2, 3]\<rparr>, [])"
    by (simp add: load_def g grow_eq three_models_def example_ops_def)
  have p: "partition_of (in_partition 1) = 1"
    by (simp add: partition_of_def in_partition_def get_int_def)
  have ld: "fst (load example_ops three_models (store example_ops one_model []))
            = three_models\<lparr>transforms := [5, 2, 3]\<rparr>"
    by (simp add: s l)
  have 1: "transforms (fst (load example_ops three_models (store example_ops one_model [])))
           = [5, 2, 3]"
    unfolding ld by simp
  have 2: "length (transforms (fst (load example_ops three_models (store example_ops one_model []))))
           \<noteq> length (transforms one_model)"
    unfolding 1 by (simp add: one_model_def)
  have 3: "map_option fst
     (project example_ops (fst (load example_ops three_models (store example_ops one_model [])))
        (in_partition 1))
     = Some ((in_partition 1)\<lparr>mat := [2]\<rparr>)"
    unfolding ld using p by (simp add: project_def partition_of_def example_ops_def)
  have 4: "project example_ops one_model (in_partition 1) = None"
    using p by (simp add: project_def partition_of_def one_model_def)
  from example_ops_roundtrip 1 2 3 4 show ?thesis by (intro conjI)
qed

end
